theory Spec2Isabelle
  imports Complex_Main "HOL-Library.Char_ord" "HOL-Library.List_Lexorder"
begin

section \<open>The batch background-filter pipeline of demo\_Ring\_CNN.ipynb\<close>

text \<open>
  The notebook streams a movie through the ring model in batches of \<open>batch_length\<close>
  frames (cell 19, source lines 312-334) and then concatenates the per-batch files into
  one memory-mapped array (cell 20, source lines 343-345):
  \<^verbatim>\<open>
    m = []
    saved_files = []
    batch_length = 256
    for i in range(0, T, batch_length):
        images = cm.load(fnames, var_name_hdf5='Y', subindices=slice(i, i + batch_length))
        images_filt = np.squeeze(model_LN.predict(np.expand_dims(images, axis=-1)))
        temp_file = os.path.join(fld_name, 'pfc_back_removed_' + format(i, '05d') + '.h5')
        saved_files.append(temp_file)
        m = cm.movie(np.maximum(images - images_filt, 0))
        m.save(temp_file)
  \<close>
  Arrays are numpy arrays: a shape and the values in row-major (C) order. A pixel value
  is a floating-point number: a finite value, taken as a real (rounding, overflow and the
  infinities are not modelled), or NaN, which \<^verbatim>\<open>-\<close> and \<^verbatim>\<open>np.maximum\<close> hand on.
\<close>

subsection \<open>Arrays and the numpy operations the notebook calls\<close>

datatype pixel = Val real | NaN

record ndarray =
  shape :: "nat list"
  data :: "pixel list"

datatype error =
    SourceReadError
  | ModelInferenceError
  | PersistenceError
  | ShapeMismatchError
  | ConcatenationError
  | ValueError

text \<open>\<^verbatim>\<open>np.expand_dims(a, axis=-1)\<close>: a new last axis of length 1.\<close>

definition np_expand_dims_last :: "ndarray \<Rightarrow> ndarray" where
  "np_expand_dims_last a = a\<lparr>shape := shape a @ [1]\<rparr>"

text \<open>\<^verbatim>\<open>np.squeeze(a)\<close> with no axis argument: every axis of length 1 is removed.\<close>

definition np_squeeze :: "ndarray \<Rightarrow> ndarray" where
  "np_squeeze a = a\<lparr>shape := filter (\<lambda>d. d \<noteq> 1) (shape a)\<rparr>"

text \<open>
  Broadcasting of two shapes, aligned at their last axes (the lists are reversed here):
  two lengths are compatible when they are equal or one of them is 1.
\<close>

fun broadcast_rev :: "nat list \<Rightarrow> nat list \<Rightarrow> nat list option" where
  "broadcast_rev [] ys = Some ys"
| "broadcast_rev (x # xs) [] = Some (x # xs)"
| "broadcast_rev (x # xs) (y # ys) =
     (if x = y \<or> y = 1 then map_option ((#) x) (broadcast_rev xs ys)
      else if x = 1 then map_option ((#) y) (broadcast_rev xs ys)
      else None)"

definition broadcast_shapes :: "nat list \<Rightarrow> nat list \<Rightarrow> nat list option" where
  "broadcast_shapes s1 s2 = map_option rev (broadcast_rev (rev s1) (rev s2))"

definition pad_shape :: "nat \<Rightarrow> nat list \<Rightarrow> nat list" where
  "pad_shape n s = replicate (n - length s) 1 @ s"

text \<open>
  The values of an array of shape \<open>s # ss\<close> stretched to the shape \<open>t # ts\<close>: an axis of
  the same length is walked block by block, an axis of length 1 is repeated.
\<close>

fun broadcast_to :: "nat list \<Rightarrow> nat list \<Rightarrow> 'a list \<Rightarrow> 'a list" where
  "broadcast_to (t # ts) (s # ss) d =
     (if s = t
      then concat (map (\<lambda>k. broadcast_to ts ss (take (prod_list ss) (drop (k * prod_list ss) d))) [0..<t])
      else concat (replicate t (broadcast_to ts ss d)))"
| "broadcast_to ts ss d = d"

text \<open>\<^verbatim>\<open>x - y\<close> on two values: NaN when one of them is NaN.\<close>

fun px_minus :: "pixel \<Rightarrow> pixel \<Rightarrow> pixel" where
  "px_minus (Val x) (Val y) = Val (x - y)"
| "px_minus x y = NaN"

text \<open>\<^verbatim>\<open>np.maximum(x, 0)\<close> on one value: NaN stays NaN.\<close>

fun px_maximum0 :: "pixel \<Rightarrow> pixel" where
  "px_maximum0 (Val x) = Val (max x 0)"
| "px_maximum0 NaN = NaN"

text \<open>\<^verbatim>\<open>a - b\<close> on arrays; numpy raises ValueError when the shapes do not broadcast.\<close>

definition np_subtract :: "ndarray \<Rightarrow> ndarray \<Rightarrow> error + ndarray" where
  "np_subtract a b =
     (case broadcast_shapes (shape a) (shape b) of
        None \<Rightarrow> Inl ValueError
      | Some r \<Rightarrow>
          Inr \<lparr>shape = r,
               data = map2 px_minus (broadcast_to r (pad_shape (length r) (shape a)) (data a))
                                    (broadcast_to r (pad_shape (length r) (shape b)) (data b))\<rparr>)"

text \<open>\<^verbatim>\<open>np.maximum(a, 0)\<close>: the scalar 0 broadcasts to every element.\<close>

definition np_maximum0 :: "ndarray \<Rightarrow> ndarray" where
  "np_maximum0 a = a\<lparr>data := map px_maximum0 (data a)\<rparr>"

text \<open>
  Storage orders. \<open>chunks n p d\<close> cuts \<open>d\<close> into \<open>n\<close> blocks of \<open>p\<close> values; \<open>cols_of m xss\<close>
  lists the \<open>m\<close> columns of the rows \<open>xss\<close>. \<open>f_order s d\<close> lists in column-major (Fortran)
  order the values of the array of shape \<open>s\<close> whose row-major listing is \<open>d\<close>: the first
  axis runs fastest. Listing the reversed shape undoes it, so \<open>f_order (rev s)\<close> turns a
  column-major listing into the row-major one.
\<close>

definition chunks :: "nat \<Rightarrow> nat \<Rightarrow> 'a list \<Rightarrow> 'a list list" where
  "chunks n p d = map (\<lambda>k. take p (drop (k * p) d)) [0..<n]"

definition cols_of :: "nat \<Rightarrow> 'a list list \<Rightarrow> 'a list list" where
  "cols_of m xss = map (\<lambda>j. map (\<lambda>xs. xs ! j) xss) [0..<m]"

fun f_order :: "nat list \<Rightarrow> 'a list \<Rightarrow> 'a list" where
  "f_order [] d = d"
| "f_order [n] d = d"
| "f_order (n # ns) d =
     concat (cols_of (prod_list ns) (map (f_order ns) (chunks n (prod_list ns) d)))"

declare f_order.simps(3) [simp del]

text \<open>\<^verbatim>\<open>a.T\<close>: the axes reversed.\<close>

definition np_T :: "ndarray \<Rightarrow> ndarray" where
  "np_T a = \<lparr>shape = rev (shape a), data = f_order (shape a) (data a)\<rparr>"

datatype storage_order = C_order | F_order

text \<open>
  \<^verbatim>\<open>a.reshape(newshape, order=...)\<close>: the values are read in the given order and placed into
  the new shape in the same order; numpy raises ValueError when the sizes differ.
\<close>

definition np_reshape :: "ndarray \<Rightarrow> nat list \<Rightarrow> storage_order \<Rightarrow> error + ndarray" where
  "np_reshape a newshape order =
     (if prod_list newshape \<noteq> prod_list (shape a) then Inl ValueError
      else Inr \<lparr>shape = newshape,
                data = (case order of
                          C_order \<Rightarrow> data a
                        | F_order \<Rightarrow> f_order (rev newshape) (f_order (shape a) (data a)))\<rparr>)"

text \<open>The last axis moved to the front (\<^verbatim>\<open>np.moveaxis(a, -1, 0)\<close>).\<close>

definition frame_axis_to_front :: "ndarray \<Rightarrow> ndarray" where
  "frame_axis_to_front a =
     (case rev (shape a) of
        [] \<Rightarrow> a
      | t # rs \<Rightarrow> \<lparr>shape = t # rev rs, data = f_order [prod_list rs, t] (data a)\<rparr>)"

subsection \<open>File names\<close>

definition digit_char :: "nat \<Rightarrow> char" where
  "digit_char d = char_of (48 + d)"

text \<open>\<^verbatim>\<open>str(n)\<close> for a non-negative integer: its decimal digits.\<close>

fun str_nat :: "nat \<Rightarrow> string" where
  "str_nat n = (if n < 10 then [digit_char n] else str_nat (n div 10) @ [digit_char (n mod 10)])"

declare str_nat.simps [simp del]

text \<open>
  \<^verbatim>\<open>format(i, '05d')\<close> for \<open>i \<ge> 0\<close>: the decimal digits, padded with zeros on the left
  to a width of at least 5. A longer number is not cut.
\<close>

definition format_05d :: "nat \<Rightarrow> string" where
  "format_05d i = replicate (5 - length (str_nat i)) (CHR ''0'') @ str_nat i"

text \<open>\<^verbatim>\<open>os.path.join(a, b)\<close> for two components (POSIX).\<close>

definition os_path_join :: "string \<Rightarrow> string \<Rightarrow> string" where
  "os_path_join a b =
     (if b \<noteq> [] \<and> hd b = CHR ''/'' then b
      else if a = [] \<or> last a = CHR ''/'' then a @ b
      else a @ ''/'' @ b)"

definition temp_file_name :: "string \<Rightarrow> nat \<Rightarrow> string" where
  "temp_file_name fld i = os_path_join fld (''pfc_back_removed_'' @ format_05d i @ ''.h5'')"

subsection \<open>The collaborators: source file, ring model, storage\<close>

text \<open>
  What the notebook reads and calls but does not define. \<open>source\<close> is the movie stored in
  \<^verbatim>\<open>fnames\<close> under the variable \<^verbatim>\<open>'Y'\<close>; \<open>predict\<close> is \<^verbatim>\<open>model_LN.predict\<close>, \<open>None\<close> when the
  call raises; \<open>read_fault\<close> and \<open>write_fault\<close> say for which batch start and which path the
  storage fails; \<open>fld_name\<close> is the output directory.
\<close>

record env =
  source :: ndarray
  read_fault :: "nat \<Rightarrow> bool"
  predict :: "ndarray \<Rightarrow> ndarray option"
  write_fault :: "string \<Rightarrow> bool"
  fld_name :: string

text \<open>The calls to the collaborators, with the start index of the batch they serve.\<close>

datatype call = Load nat | Predict nat | Save nat

subsection \<open>The state the cells work on\<close>

text \<open>
  The memory-mapped composite: the values in file order, with the storage order, the
  spatial dimensions and the number of frames that the file name of a memory map carries.
\<close>

record memmap =
  mm_order :: storage_order
  mm_dims :: "nat \<times> nat"
  mm_frames :: nat
  mm_data :: "pixel list"

text \<open>
  \<open>fs\<close> is the storage (path to array), \<open>saved_files\<close> the notebook variable of that name,
  \<open>calls\<close> the calls made so far, \<open>mmap_file\<close> the composite file of cell 20 and
  \<open>images_mmap\<close> the notebook variable of that name.
\<close>

record state =
  fs :: "string \<Rightarrow> ndarray option"
  saved_files :: "string list"
  calls :: "call list"
  mmap_file :: "memmap option"
  images_mmap :: "ndarray option"

text \<open>
  Modelled from the spec: \<^verbatim>\<open>caiman.base.movies.get_file_size\<close> is not in the sources. The
  spec has a movie as a 3-dimensional array (time, row, column) whose frame count T is
  obtained before the iteration begins.
\<close>

definition get_file_size :: "env \<Rightarrow> error + ((nat \<times> nat) \<times> nat)" where
  "get_file_size E =
     (case shape (source E) of
        [t, r, c] \<Rightarrow> Inr ((r, c), t)
      | _ \<Rightarrow> Inl SourceReadError)"

text \<open>
  Modelled from the spec: \<^verbatim>\<open>cm.load\<close> with \<^verbatim>\<open>subindices=slice(i, j)\<close> is not in the sources.
  The spec: load exactly the frames in \<open>[i, min(j, T))\<close> as a (batch\_frames, rows, cols)
  array; SourceReadError if the source cannot supply the range.
\<close>

definition cm_load :: "env \<Rightarrow> nat \<Rightarrow> nat \<Rightarrow> error + ndarray" where
  "cm_load E i j =
     (if read_fault E i then Inl SourceReadError
      else case shape (source E) of
        [t, r, c] \<Rightarrow>
          Inr \<lparr>shape = [min j t - i, r, c],
               data = take ((min j t - i) * (r * c)) (drop (i * (r * c)) (data (source E)))\<rparr>
      | _ \<Rightarrow> Inl SourceReadError)"

text \<open>
  Modelled from the spec: \<^verbatim>\<open>model_LN.predict\<close> is not in the sources. The spec: the
  background model maps a batch of frames to a same-shaped batch of estimated background
  frames; ModelInferenceError if the call fails or returns an unexpected shape.
\<close>

definition model_predict :: "env \<Rightarrow> ndarray \<Rightarrow> error + ndarray" where
  "model_predict E x =
     (case predict E x of
        None \<Rightarrow> Inl ModelInferenceError
      | Some y \<Rightarrow> if shape y = shape x then Inr y else Inl ModelInferenceError)"

text \<open>\<^verbatim>\<open>cm.movie(a)\<close> views the array as a movie; the values and the shape stay.\<close>

definition cm_movie :: "ndarray \<Rightarrow> ndarray" where
  "cm_movie a = a"

text \<open>
  Modelled from the spec: \<^verbatim>\<open>movie.save\<close> is not in the sources. The spec: one file per
  batch holding the array; PersistenceError if the batch cannot be written, and then no
  partial file is left.
\<close>

definition movie_save :: "env \<Rightarrow> (string \<Rightarrow> ndarray option) \<Rightarrow> string \<Rightarrow> ndarray
    \<Rightarrow> error + (string \<Rightarrow> ndarray option)" where
  "movie_save E store path m =
     (if write_fault E path then Inl PersistenceError else Inr (store(path \<mapsto> m)))"

subsection \<open>Cell 19: the batch filtering loop\<close>

text \<open>\<^verbatim>\<open>range(i, T, step)\<close> for a positive step.\<close>

function py_range :: "nat \<Rightarrow> nat \<Rightarrow> nat \<Rightarrow> nat list" where
  "py_range i T step = (if step = 0 \<or> T \<le> i then [] else i # py_range (i + step) T step)"
  by pat_completeness auto
termination
  by (relation "measure (\<lambda>(i, T, step). T - i)") auto

declare py_range.simps [simp del]

text \<open>
  One pass through the loop body (source lines 326-331). An exception leaves the loop with
  the state reached so far: \<open>Inl (e, s)\<close>.
\<close>

definition batch_step :: "env \<Rightarrow> nat \<Rightarrow> nat \<Rightarrow> state \<Rightarrow> (error \<times> state) + state" where
  "batch_step E batch_length i s =
     (let s1 = s\<lparr>calls := calls s @ [Load i]\<rparr> in
      case cm_load E i (i + batch_length) of
        Inl e \<Rightarrow> Inl (e, s1)
      | Inr images \<Rightarrow>
          (let s2 = s1\<lparr>calls := calls s1 @ [Predict i]\<rparr> in
           case model_predict E (np_expand_dims_last images) of
             Inl e \<Rightarrow> Inl (e, s2)
           | Inr out \<Rightarrow>
               (let images_filt = np_squeeze out;
                    temp_file = temp_file_name (fld_name E) i;
                    s3 = s2\<lparr>saved_files := saved_files s2 @ [temp_file]\<rparr>
                in case np_subtract images images_filt of
                     Inl e \<Rightarrow> Inl (e, s3)
                   | Inr diff \<Rightarrow>
                       (let m = cm_movie (np_maximum0 diff);
                            s4 = s3\<lparr>calls := calls s3 @ [Save i]\<rparr>
                        in case movie_save E (fs s4) temp_file m of
                             Inl e \<Rightarrow> Inl (e, s4)
                           | Inr store \<Rightarrow> Inr (s4\<lparr>fs := store\<rparr>)))))"

fun for_each :: "(nat \<Rightarrow> state \<Rightarrow> (error \<times> state) + state) \<Rightarrow> nat list \<Rightarrow> state
    \<Rightarrow> (error \<times> state) + state" where
  "for_each body [] s = Inr s"
| "for_each body (i # is) s =
     (case body i s of Inl es \<Rightarrow> Inl es | Inr s' \<Rightarrow> for_each body is s')"

text \<open>
  The loop with its initialisation \<^verbatim>\<open>saved_files = []\<close>; \<^verbatim>\<open>range\<close> raises ValueError for a
  step of 0. The notebook fixes \<^verbatim>\<open>batch_length = 256\<close>; the spec's \<open>run\<close> takes it as an
  argument.
\<close>

definition batch_loop :: "env \<Rightarrow> nat \<Rightarrow> nat \<Rightarrow> state \<Rightarrow> (error \<times> state) + state" where
  "batch_loop E T batch_length s =
     (let s0 = s\<lparr>saved_files := []\<rparr> in
      if batch_length = 0 then Inl (ValueError, s0)
      else for_each (batch_step E batch_length) (py_range 0 T batch_length) s0)"

text \<open>\<open>run\<close>: T from \<^verbatim>\<open>get_file_size\<close> (cell 7, source lines 172-173), then the loop.\<close>

definition run :: "env \<Rightarrow> nat \<Rightarrow> state \<Rightarrow> (error \<times> state) + state" where
  "run E batch_length s =
     (case get_file_size E of
        Inl e \<Rightarrow> Inl (e, s)
      | Inr (dims, T) \<Rightarrow> batch_loop E T batch_length s)"

definition notebook_batch_length :: nat where
  "notebook_batch_length = 256"

subsection \<open>Cell 20: the memory-mapped composite\<close>

text \<open>
  \<^verbatim>\<open>
    fname_mmap = cm.save_memmap([saved_files], order='C', border_to_0=0)
    Yr, dims, T = cm.load_memmap(fname_mmap)
    images_mmap = Yr.T.reshape((T,) + dims, order='F')
  \<close>
\<close>

definition batch_dims :: "ndarray \<Rightarrow> (nat \<times> nat) option" where
  "batch_dims a = (case shape a of [n, r, c] \<Rightarrow> Some (r, c) | _ \<Rightarrow> None)"

definition batch_frames :: "ndarray \<Rightarrow> nat" where
  "batch_frames a = (case shape a of [] \<Rightarrow> 0 | n # _ \<Rightarrow> n)"

text \<open>
  The concatenation of batches along the frame axis (\<^verbatim>\<open>np.concatenate(batches, axis=0)\<close>
  for batches that agree on the other axes), the frame axis moved to the back
  (\<^verbatim>\<open>np.moveaxis(a, 0, -1)\<close>), and the values of an array in the order in which a file of
  the given storage order holds them.
\<close>

definition np_concatenate :: "ndarray list \<Rightarrow> ndarray" where
  "np_concatenate bs =
     \<lparr>shape = sum_list (map batch_frames bs) # (case bs of [] \<Rightarrow> [] | b # _ \<Rightarrow> tl (shape b)),
      data = concat (map data bs)\<rparr>"

definition frame_axis_to_back :: "ndarray \<Rightarrow> ndarray" where
  "frame_axis_to_back a =
     (case shape a of
        [] \<Rightarrow> a
      | t # rs \<Rightarrow> \<lparr>shape = rs @ [t], data = f_order [t, prod_list rs] (data a)\<rparr>)"

definition stored_values :: "storage_order \<Rightarrow> ndarray \<Rightarrow> pixel list" where
  "stored_values order a =
     (case order of C_order \<Rightarrow> data a | F_order \<Rightarrow> f_order (shape a) (data a))"

text \<open>
  Modelled from the spec: \<^verbatim>\<open>cm.save_memmap\<close> is not in the sources. The spec's
  \<open>materialize\<close>: the batch files, in the order given, are concatenated into one on-disk
  array of shape (pixels, total\_frames), pixels = rows * cols, in the declared storage
  order; \<open>dims\<close> and \<open>total_frames\<close> come from the files. Its invariant: reshaping the
  mapped array by \<open>dims + (total_frames,)\<close> in the declared storage order and moving the
  frame axis to the front reproduces the frames. So the mapped array is the concatenated
  movie with its frame axis moved to the back, reshaped to (pixels, total\_frames) in the
  declared order, and the file lists it in that order. It fails with ShapeMismatchError
  if the files disagree on the spatial dimensions, and with ConcatenationError if the
  number of frames it concatenated differs from \<open>source_frames\<close>, the frame count of the
  source computed independently. An empty list of paths and a missing file, which the
  spec leaves open, are failures.
\<close>

definition materialize :: "(string \<Rightarrow> ndarray option) \<Rightarrow> string list \<Rightarrow> storage_order \<Rightarrow> nat
    \<Rightarrow> error + memmap" where
  "materialize store paths order source_frames =
     (case those (map store paths) of
        None \<Rightarrow> Inl ConcatenationError
      | Some [] \<Rightarrow> Inl ShapeMismatchError
      | Some (b # bs) \<Rightarrow>
          (case batch_dims b of
             None \<Rightarrow> Inl ShapeMismatchError
           | Some (r, c) \<Rightarrow>
               if list_ex (\<lambda>b'. batch_dims b' \<noteq> Some (r, c)) bs then Inl ShapeMismatchError
               else
                 let T = sum_list (map batch_frames (b # bs)) in
                 if T \<noteq> source_frames then Inl ConcatenationError
                 else
                   (case np_reshape (frame_axis_to_back (np_concatenate (b # bs))) [r * c, T] order of
                      Inl e \<Rightarrow> Inl e
                    | Inr Yr \<Rightarrow>
                        Inr \<lparr>mm_order = order, mm_dims = (r, c), mm_frames = T,
                             mm_data = stored_values order Yr\<rparr>)))"

text \<open>
  Modelled from the spec: \<^verbatim>\<open>cm.load_memmap\<close> is not in the sources. The spec: the file
  holds a (pixels, total\_frames) array in the declared storage order, with \<open>dims\<close> and
  \<open>total_frames\<close>.
\<close>

definition load_memmap :: "memmap \<Rightarrow> ndarray \<times> (nat \<times> nat) \<times> nat" where
  "load_memmap mm =
     (let (r, c) = mm_dims mm; T = mm_frames mm
      in (\<lparr>shape = [r * c, T],
           data = (case mm_order mm of
                     C_order \<Rightarrow> mm_data mm
                   | F_order \<Rightarrow> f_order [T, r * c] (mm_data mm))\<rparr>,
          (r, c), T))"

text \<open>Lines 344-345: \<^verbatim>\<open>Yr.T.reshape((T,) + dims, order='F')\<close> on the loaded composite.\<close>

definition mmap_view :: "memmap \<Rightarrow> error + ndarray" where
  "mmap_view mm =
     (case load_memmap mm of
        (Yr, dims, T) \<Rightarrow> np_reshape (np_T Yr) [T, fst dims, snd dims] F_order)"

text \<open>
  Cell 20. \<open>T\<close> is the notebook variable of that name when the cell starts: the frame
  count of the source from cell 7, which is the independently computed count that the
  spec's \<open>materialize\<close> checks its frames against.
\<close>

definition cell_20 :: "nat \<Rightarrow> state \<Rightarrow> (error \<times> state) + state" where
  "cell_20 T s =
     (case materialize (fs s) (saved_files s) C_order T of
        Inl e \<Rightarrow> Inl (e, s)
      | Inr mm \<Rightarrow>
          (let s1 = s\<lparr>mmap_file := Some mm\<rparr>
           in case mmap_view mm of
                Inl e \<Rightarrow> Inl (e, s1)
              | Inr v \<Rightarrow> Inr (s1\<lparr>images_mmap := Some v\<rparr>)))"

text \<open>The cells in sequence: an exception in a cell stops the notebook.\<close>

definition pipeline :: "env \<Rightarrow> nat \<Rightarrow> state \<Rightarrow> (error \<times> state) + state" where
  "pipeline E batch_length s =
     (case run E batch_length s of
        Inl es \<Rightarrow> Inl es
      | Inr s1 \<Rightarrow>
          (case get_file_size E of
             Inl e \<Rightarrow> Inl (e, s1)
           | Inr (dims, T) \<Rightarrow> cell_20 T s1))"

subsection \<open>Notions used to state and prove the properties\<close>

text \<open>
  The array that one pass of the loop body hands to \<^verbatim>\<open>m.save\<close> for the batch starting at
  \<open>i\<close> (source lines 326, 327 and 330), without the bookkeeping of \<open>batch_step\<close>.
\<close>

definition filtered_batch :: "env \<Rightarrow> nat \<Rightarrow> nat \<Rightarrow> error + ndarray" where
  "filtered_batch E batch_length i =
     (case cm_load E i (i + batch_length) of
        Inl e \<Rightarrow> Inl e
      | Inr images \<Rightarrow>
          (case model_predict E (np_expand_dims_last images) of
             Inl e \<Rightarrow> Inl e
           | Inr out \<Rightarrow>
               (case np_subtract images (np_squeeze out) of
                  Inl e \<Rightarrow> Inl e
                | Inr diff \<Rightarrow> Inr (cm_movie (np_maximum0 diff)))))"

text \<open>The number a string of decimal digits denotes, and the digits of a number at a fixed width.\<close>

definition digit_val :: "char \<Rightarrow> nat" where
  "digit_val c = of_char c - 48"

definition dec_value :: "string \<Rightarrow> nat" where
  "dec_value s = foldl (\<lambda>a c. 10 * a + digit_val c) 0 s"

fun fixed_digits :: "nat \<Rightarrow> nat \<Rightarrow> string" where
  "fixed_digits 0 n = []"
| "fixed_digits (Suc w) n = fixed_digits w (n div 10) @ [digit_char (n mod 10)]"

text \<open>The number of frames of a stored array (its first axis), 0 for a missing file.\<close>

definition frame_count :: "ndarray option \<Rightarrow> nat" where
  "frame_count f = (case f of None \<Rightarrow> 0 | Some a \<Rightarrow> batch_frames a)"

text \<open>The state in which a cell ends and the exception it raised, if any.\<close>

definition final_state :: "(error \<times> state) + state \<Rightarrow> state" where
  "final_state r = (case r of Inl (e, s) \<Rightarrow> s | Inr s \<Rightarrow> s)"

definition raised :: "(error \<times> state) + state \<Rightarrow> error option" where
  "raised r = (case r of Inl (e, s) \<Rightarrow> Some e | Inr s \<Rightarrow> None)"

text \<open>
  The reading of the composite in the spec's words: the mapped array reshaped by
  \<open>dims + (total_frames,)\<close> in a given order, then the frame axis moved to the front.
  \<open>spec_read_back\<close> reshapes in the storage order that the composite declares.
\<close>

definition read_back :: "storage_order \<Rightarrow> memmap \<Rightarrow> error + ndarray" where
  "read_back order mm =
     (case load_memmap mm of
        (Yr, dims, T) \<Rightarrow>
          (case np_reshape Yr [fst dims, snd dims, T] order of
             Inl e \<Rightarrow> Inl e
           | Inr a \<Rightarrow> Inr (frame_axis_to_front a)))"

definition spec_read_back :: "memmap \<Rightarrow> error + ndarray" where
  "spec_read_back mm = read_back (mm_order mm) mm"

text \<open>The per-batch files of a state, in the order of \<open>saved_files\<close>; a missing file counts as empty.\<close>

definition stored_batches :: "state \<Rightarrow> ndarray list" where
  "stored_batches s =
     map (\<lambda>p. case fs s p of None \<Rightarrow> \<lparr>shape = [], data = []\<rparr> | Some a \<Rightarrow> a) (saved_files s)"

text \<open>A well-formed array has as many values as its shape says.\<close>

definition well_formed :: "ndarray \<Rightarrow> bool" where
  "well_formed a \<longleftrightarrow> length (data a) = prod_list (shape a)"

text \<open>The shape of an array that an operation returned.\<close>

definition result_shape :: "error + ndarray \<Rightarrow> nat list option" where
  "result_shape r = (case r of Inl e \<Rightarrow> None | Inr a \<Rightarrow> Some (shape a))"

subsection \<open>Concrete inputs\<close>

text \<open>
  A movie of three 2 x 2 frames, a model that estimates the background 3 everywhere, a
  storage without faults; and the state of a fresh notebook with an empty storage.
\<close>

definition example_env :: env where
  "example_env =
     \<lparr>source = \<lparr>shape = [3, 2, 2], data = map Val [1, 2, 3, 4, 5, 6, 7, 8, 9, 10, 11, 12]\<rparr>,
      read_fault = (\<lambda>i. False),
      predict = (\<lambda>x. Some (x\<lparr>data := map (\<lambda>v. Val 3) (data x)\<rparr>)),
      write_fault = (\<lambda>p. False),
      fld_name = ''out''\<rparr>"

definition empty_state :: state where
  "empty_state =
     \<lparr>fs = (\<lambda>p. None), saved_files = [], calls = [], mmap_file = None, images_mmap = None\<rparr>"

text \<open>A movie without frames.\<close>

definition empty_movie_env :: env where
  "empty_movie_env = example_env\<lparr>source := \<lparr>shape = [0, 2, 2], data = []\<rparr>\<rparr>"

text \<open>The same movie and model on a storage that refuses every write.\<close>

definition write_fault_env :: env where
  "write_fault_env = example_env\<lparr>write_fault := (\<lambda>p. True)\<rparr>"

text \<open>
  The failure scenario of the spec: a movie of 1000 frames of 2 x 2 pixels whose values
  count up from 0, so that the batch starting at frame 512 begins with the value 2048, and
  a model whose inference fails on exactly that batch.
\<close>

definition scenario_env :: env where
  "scenario_env =
     \<lparr>source = \<lparr>shape = [1000, 2, 2], data = map (\<lambda>n. Val (real n)) [0..<4000]\<rparr>,
      read_fault = (\<lambda>i. False),
      predict = (\<lambda>x. if hd (data x) = Val 2048 then None else Some x),
      write_fault = (\<lambda>p. False),
      fld_name = ''out''\<rparr>"

text \<open>
  Movies with a spatial dimension of length 1, and a model that estimates the background
  of every pixel as a tenth of its value: two frames of one row of two pixels; one frame
  of one column of two pixels; two frames of one column of three pixels.
\<close>

definition one_row_env :: env where
  "one_row_env =
     \<lparr>source = \<lparr>shape = [2, 1, 2], data = map Val [10, 20, 30, 40]\<rparr>,
      read_fault = (\<lambda>i. False),
      predict = (\<lambda>x. Some (x\<lparr>data := map (\<lambda>v. case v of Val a \<Rightarrow> Val (a / 10) | NaN \<Rightarrow> NaN)
                                            (data x)\<rparr>)),
      write_fault = (\<lambda>p. False),
      fld_name = ''out''\<rparr>"

definition one_column_env :: env where
  "one_column_env = one_row_env\<lparr>source := \<lparr>shape = [1, 2, 1], data = map Val [10, 20]\<rparr>\<rparr>"

definition tall_column_env :: env where
  "tall_column_env =
     one_row_env\<lparr>source := \<lparr>shape = [2, 3, 1], data = map Val [10, 20, 30, 40, 50, 60]\<rparr>\<rparr>"

text \<open>A movie of three frames of 2 rows and 3 columns, with the model of the first example.\<close>

definition wide_env :: env where
  "wide_env =
     example_env\<lparr>source := \<lparr>shape = [3, 2, 3],
                               data = map Val [1, 2, 3, 4, 5, 6, 7, 8, 9, 10, 11, 12,
                                               13, 14, 15, 16, 17, 18]\<rparr>\<rparr>"

text \<open>The 1000-frame movie of the scenario with a model that never fails.\<close>

definition long_env :: env where
  "long_env = scenario_env\<lparr>predict := (\<lambda>x. Some x)\<rparr>"

section \<open>Properties\<close>

subsection \<open>The batch starts\<close>

lemma py_range_rec: "0 < step \<Longrightarrow> i < T \<Longrightarrow> py_range i T step = i # py_range (i + step) T step"
  by (subst py_range.simps) simp

lemma py_range_nil: "T \<le> i \<Longrightarrow> py_range i T step = []"
  by (subst py_range.simps) simp

lemma length_py_range:
  "0 < step \<Longrightarrow> length (py_range i T step) = (T - i + (step - 1)) div step"
proof (induction i T step rule: py_range.induct)
  case (1 i T step)
  show ?case
  proof (cases "T \<le> i")
    case True
    with 1 show ?thesis by (simp add: py_range_nil)
  next
    case False
    then have lt: "i < T" by simp
    have ih: "length (py_range (i + step) T step) = (T - (i + step) + (step - 1)) div step"
      using 1 False by simp
    have e1: "T - i + (step - 1) = (T - i - 1) + step" using lt 1(2) by simp
    have e2: "((T - i - 1) + step) div step = Suc ((T - i - 1) div step)"
      using 1(2) by simp
    have e3: "(T - (i + step) + (step - 1)) div step = (T - i - 1) div step"
    proof (cases "i + step \<le> T")
      case True
      then have "T - (i + step) + (step - 1) = T - i - 1" using 1(2) by simp
      then show ?thesis by simp
    next
      case False
      then have "T - (i + step) + (step - 1) < step" "T - i - 1 < step" using 1(2) lt by simp_all
      then show ?thesis by simp
    qed
    show ?thesis using ih e1 e2 e3 lt 1(2) by (simp add: py_range_rec)
  qed
qed

lemma set_py_range:
  "0 < step \<Longrightarrow> set (py_range i T step) = {k. \<exists>q. k = i + q * step \<and> k < T}"
proof (induction i T step rule: py_range.induct)
  case (1 i T step)
  show ?case
  proof (cases "T \<le> i")
    case True
    then show ?thesis by (auto simp: py_range_nil)
  next
    case False
    then have lt: "i < T" by simp
    have ih: "set (py_range (i + step) T step) = {k. \<exists>q. k = i + step + q * step \<and> k < T}"
      using 1 False by simp
    have "{k. \<exists>q. k = i + q * step \<and> k < T} = insert i {k. \<exists>q. k = i + step + q * step \<and> k < T}"
    proof (intro set_eqI iffI)
      fix k assume "k \<in> {k. \<exists>q. k = i + q * step \<and> k < T}"
      then obtain q where q: "k = i + q * step" "k < T" by auto
      show "k \<in> insert i {k. \<exists>q. k = i + step + q * step \<and> k < T}"
      proof (cases q)
        case 0 with q show ?thesis by simp
      next
        case (Suc q')
        with q have "k = i + step + q' * step" by simp
        with q show ?thesis by auto
      qed
    next
      fix k assume "k \<in> insert i {k. \<exists>q. k = i + step + q * step \<and> k < T}"
      then consider "k = i" | q where "k = i + step + q * step" "k < T" by auto
      then show "k \<in> {k. \<exists>q. k = i + q * step \<and> k < T}"
      proof cases
        case 1 then show ?thesis using lt by (auto intro: exI[of _ 0])
      next
        case 2 then show ?thesis by (auto intro!: exI[of _ "Suc q"])
      qed
    qed
    with ih lt 1(2) show ?thesis by (simp add: py_range_rec)
  qed
qed

lemma py_range_lower: "k \<in> set (py_range i T step) \<Longrightarrow> i \<le> k \<and> k < T"
proof (induction i T step rule: py_range.induct)
  case (1 i T step)
  show ?case
  proof (cases "step = 0 \<or> T \<le> i")
    case True
    with 1(2) show ?thesis by (subst (asm) py_range.simps) simp
  next
    case False
    then have "py_range i T step = i # py_range (i + step) T step" by (simp add: py_range_rec)
    with 1 False show ?thesis by auto
  qed
qed

lemma sorted_py_range: "sorted_wrt (<) (py_range i T step)"
proof (induction i T step rule: py_range.induct)
  case (1 i T step)
  show ?case
  proof (cases "step = 0 \<or> T \<le> i")
    case True
    then show ?thesis by (subst py_range.simps) simp
  next
    case False
    then have e: "py_range i T step = i # py_range (i + step) T step" by (simp add: py_range_rec)
    have "\<forall>k\<in>set (py_range (i + step) T step). i < k"
      using py_range_lower[of _ "i + step" T step] False by fastforce
    with 1 False e show ?thesis by simp
  qed
qed

lemma sum_batch_sizes:
  "0 < step \<Longrightarrow> (\<Sum>k\<leftarrow>py_range i T step. min (k + step) T - k) = T - i"
proof (induction i T step rule: py_range.induct)
  case (1 i T step)
  show ?case
  proof (cases "T \<le> i")
    case True
    then show ?thesis by (simp add: py_range_nil)
  next
    case False
    then have lt: "i < T" by simp
    have ih: "(\<Sum>k\<leftarrow>py_range (i + step) T step. min (k + step) T - k) = T - (i + step)"
      using 1 False by simp
    show ?thesis using ih lt 1(2) by (simp add: py_range_rec min_def)
  qed
qed

lemma ceil_div:
  assumes "0 < step"
  shows "(T + (step - 1)) div step = nat \<lceil>real T / real step\<rceil>"
proof -
  define q where "q = (T + (step - 1)) div step"
  have m: "T + (step - 1) = q * step + (T + (step - 1)) mod step"
    unfolding q_def by simp
  have r: "(T + (step - 1)) mod step < step" using assms by simp
  have A: "T \<le> q * step" using m r assms by linarith
  have B: "q * step < T + step" using m assms by linarith
  have A': "real T \<le> real q * real step" using A by (metis of_nat_le_iff of_nat_mult)
  have B': "real q * real step < real T + real step" using B by (metis of_nat_less_iff of_nat_mult of_nat_add)
  have s: "0 < real step" using assms by simp
  have "real T / real step \<le> real q" using A' s by (simp add: pos_divide_le_eq)
  moreover have "real q - 1 < real T / real step"
  proof -
    have "(real q - 1) * real step < real T" using B' by (simp add: algebra_simps)
    then show ?thesis using s by (simp add: pos_less_divide_eq)
  qed
  ultimately have "\<lceil>real T / real step\<rceil> = int q"
    by (intro ceiling_unique) simp_all
  then show ?thesis unfolding q_def by simp
qed

subsection \<open>File names identify the batch\<close>

lemma digit_val_digit_char: "d < 10 \<Longrightarrow> digit_val (digit_char d) = d"
  by (simp add: digit_val_def digit_char_def)

lemma dec_value_snoc: "dec_value (s @ [c]) = 10 * dec_value s + digit_val c"
  by (simp add: dec_value_def)

lemma dec_value_str_nat: "dec_value (str_nat n) = n"
proof (induction n rule: str_nat.induct)
  case (1 n)
  show ?case
  proof (cases "n < 10")
    case True
    then show ?thesis
      by (subst str_nat.simps) (simp add: dec_value_def digit_val_digit_char)
  next
    case False
    then have "dec_value (str_nat (n div 10)) = n div 10" using 1 by simp
    with False show ?thesis
      by (subst str_nat.simps) (simp add: dec_value_snoc digit_val_digit_char)
  qed
qed

lemma digit_val_zero: "digit_val (CHR ''0'') = 0"
  by (simp add: digit_val_def)

lemma dec_value_zeros: "dec_value (replicate k (CHR ''0'') @ s) = dec_value s"
proof -
  have "foldl (\<lambda>a c. 10 * a + digit_val c) 0 (replicate k (CHR ''0'')) = 0"
    by (induction k) (simp_all add: digit_val_zero)
  then show ?thesis by (simp add: dec_value_def)
qed

lemma dec_value_format_05d: "dec_value (format_05d i) = i"
  by (simp add: format_05d_def dec_value_zeros dec_value_str_nat)

lemma format_05d_inj: "format_05d i = format_05d j \<Longrightarrow> i = j"
  by (metis dec_value_format_05d)

lemma temp_file_name_split:
  "\<exists>pre. \<forall>i. temp_file_name fld i = pre @ ''pfc_back_removed_'' @ format_05d i @ ''.h5''"
  by (cases "fld = [] \<or> last fld = CHR ''/''")
     (auto simp: temp_file_name_def os_path_join_def intro: exI[of _ fld] exI[of _ "fld @ ''/''"])

lemma temp_file_name_inj: "temp_file_name fld i = temp_file_name fld j \<Longrightarrow> i = j"
proof -
  assume a: "temp_file_name fld i = temp_file_name fld j"
  obtain pre where p: "\<And>i. temp_file_name fld i = pre @ ''pfc_back_removed_'' @ format_05d i @ ''.h5''"
    using temp_file_name_split by blast
  from a have "format_05d i = format_05d j" unfolding p[of i] p[of j] by simp
  then show ?thesis by (rule format_05d_inj)
qed

subsection \<open>The loop\<close>

lemma batch_step_Inr:
  "batch_step E bl i s = Inr s' \<longleftrightarrow>
     (\<exists>m. filtered_batch E bl i = Inr m \<and> \<not> write_fault E (temp_file_name (fld_name E) i) \<and>
          s' = s\<lparr>fs := (fs s)(temp_file_name (fld_name E) i \<mapsto> m),
                 saved_files := saved_files s @ [temp_file_name (fld_name E) i],
                 calls := calls s @ [Load i, Predict i, Save i]\<rparr>)"
  by (auto simp: batch_step_def filtered_batch_def movie_save_def Let_def split: sum.splits)

lemma for_each_append:
  "for_each body (xs @ ys) s =
     (case for_each body xs s of Inl es \<Rightarrow> Inl es | Inr s' \<Rightarrow> for_each body ys s')"
  by (induction xs arbitrary: s) (auto split: sum.splits)

lemma for_each_Inl:
  "for_each body xs s = Inl es \<Longrightarrow>
     \<exists>ys i zs s1. xs = ys @ i # zs \<and> for_each body ys s = Inr s1 \<and> body i s1 = Inl es"
proof (induction xs arbitrary: s)
  case Nil
  then show ?case by simp
next
  case (Cons x xs)
  show ?case
  proof (cases "body x s")
    case (Inl a)
    with Cons.prems have "a = es" by simp
    with Inl have "x # xs = [] @ x # xs \<and> for_each body [] s = Inr s \<and> body x s = Inl es" by simp
    then show ?thesis by blast
  next
    case (Inr s')
    with Cons.prems have "for_each body xs s' = Inl es" by simp
    from Cons.IH[OF this] obtain ys i zs s1 where
      "xs = ys @ i # zs" "for_each body ys s' = Inr s1" "body i s1 = Inl es" by blast
    with Inr have "x # xs = (x # ys) @ i # zs \<and> for_each body (x # ys) s = Inr s1 \<and> body i s1 = Inl es"
      by simp
    then show ?thesis by blast
  qed
qed

lemma loop_Inr:
  "for_each (batch_step E bl) xs s = Inr s' \<Longrightarrow>
     saved_files s' = saved_files s @ map (temp_file_name (fld_name E)) xs \<and>
     calls s' = calls s @ concat (map (\<lambda>i. [Load i, Predict i, Save i]) xs) \<and>
     mmap_file s' = mmap_file s \<and>
     (\<forall>i\<in>set xs. \<exists>m. filtered_batch E bl i = Inr m \<and> \<not> write_fault E (temp_file_name (fld_name E) i))"
proof (induction xs arbitrary: s)
  case Nil
  then show ?case by simp
next
  case (Cons x xs)
  from Cons.prems obtain s1 where s1: "batch_step E bl x s = Inr s1" "for_each (batch_step E bl) xs s1 = Inr s'"
    by (auto split: sum.splits)
  from s1(1) obtain m where m: "filtered_batch E bl x = Inr m" "\<not> write_fault E (temp_file_name (fld_name E) x)"
    "s1 = s\<lparr>fs := (fs s)(temp_file_name (fld_name E) x \<mapsto> m),
                 saved_files := saved_files s @ [temp_file_name (fld_name E) x],
                 calls := calls s @ [Load x, Predict x, Save x]\<rparr>"
    unfolding batch_step_Inr by blast
  from Cons.IH[OF s1(2)] m show ?case by simp
qed

lemma loop_fs_other:
  "for_each (batch_step E bl) xs s = Inr s' \<Longrightarrow> p \<notin> temp_file_name (fld_name E) ` set xs \<Longrightarrow>
     fs s' p = fs s p"
proof (induction xs arbitrary: s)
  case Nil
  then show ?case by simp
next
  case (Cons x xs)
  from Cons.prems obtain s1 where s1: "batch_step E bl x s = Inr s1" "for_each (batch_step E bl) xs s1 = Inr s'"
    by (auto split: sum.splits)
  from s1(1) obtain m where m: 
    "s1 = s\<lparr>fs := (fs s)(temp_file_name (fld_name E) x \<mapsto> m),
                 saved_files := saved_files s @ [temp_file_name (fld_name E) x],
                 calls := calls s @ [Load x, Predict x, Save x]\<rparr>"
    unfolding batch_step_Inr by blast
  have "fs s' p = fs s1 p" using Cons.IH[OF s1(2)] Cons.prems(2) by simp
  also have "\<dots> = fs s p" using m Cons.prems(2) by simp
  finally show ?case .
qed

lemma loop_fs_written:
  "for_each (batch_step E bl) xs s = Inr s' \<Longrightarrow> i \<in> set xs \<Longrightarrow> filtered_batch E bl i = Inr m \<Longrightarrow>
     fs s' (temp_file_name (fld_name E) i) = Some m"
proof (induction xs arbitrary: s)
  case Nil
  then show ?case by simp
next
  case (Cons x xs)
  from Cons.prems obtain s1 where s1: "batch_step E bl x s = Inr s1" "for_each (batch_step E bl) xs s1 = Inr s'"
    by (auto split: sum.splits)
  from s1(1) obtain m' where m: "filtered_batch E bl x = Inr m'"
    "s1 = s\<lparr>fs := (fs s)(temp_file_name (fld_name E) x \<mapsto> m'),
                 saved_files := saved_files s @ [temp_file_name (fld_name E) x],
                 calls := calls s @ [Load x, Predict x, Save x]\<rparr>"
    unfolding batch_step_Inr by blast
  show ?case
  proof (cases "i \<in> set xs")
    case True
    then show ?thesis using Cons.IH[OF s1(2) _ Cons.prems(3)] by simp
  next
    case False
    with Cons.prems(2) have ix: "i = x" by simp
    have "temp_file_name (fld_name E) i \<notin> temp_file_name (fld_name E) ` set xs"
      using False temp_file_name_inj by blast
    then have "fs s' (temp_file_name (fld_name E) i) = fs s1 (temp_file_name (fld_name E) i)"
      using loop_fs_other[OF s1(2)] by simp
    also have "\<dots> = Some m" using m ix Cons.prems(3) by simp
    finally show ?thesis .
  qed
qed

subsection \<open>Shapes of the filtered batches\<close>

lemma broadcast_squeezed_frames:
  "broadcast_shapes [n, R, C] (filter (\<lambda>d. d \<noteq> 1) [n, R, C, 1]) = Some r \<Longrightarrow> \<exists>x y. r = [n, x, y]"
  by (cases "n = 1"; cases "R = 1"; cases "C = 1")
     (auto simp: broadcast_shapes_def split: if_splits)

lemma broadcast_squeezed_same:
  "R \<noteq> 1 \<Longrightarrow> C \<noteq> 1 \<Longrightarrow>
   broadcast_shapes [n, R, C] (filter (\<lambda>d. d \<noteq> 1) [n, R, C, 1]) = Some [n, R, C]"
  by (cases "n = 1"; cases "R = 1"; cases "C = 1")
     (auto simp: broadcast_shapes_def split: if_splits)

lemma filtered_batch_Inr:
  "filtered_batch E bl i = Inr m \<longleftrightarrow>
     (\<exists>images out diff. cm_load E i (i + bl) = Inr images \<and>
        model_predict E (np_expand_dims_last images) = Inr out \<and>
        np_subtract images (np_squeeze out) = Inr diff \<and> m = np_maximum0 diff)"
  by (auto simp: filtered_batch_def cm_movie_def split: sum.splits)

lemma cm_load_shape:
  "shape (source E) = [T, R, C] \<Longrightarrow> cm_load E i j = Inr images \<Longrightarrow> shape images = [min j T - i, R, C]"
  by (auto simp: cm_load_def split: if_splits)

lemma model_predict_shape: "model_predict E x = Inr y \<Longrightarrow> shape y = shape x"
  by (auto simp: model_predict_def split: option.splits if_splits)

lemma np_subtract_shape: "np_subtract a b = Inr d \<Longrightarrow> broadcast_shapes (shape a) (shape b) = Some (shape d)"
  by (auto simp: np_subtract_def split: option.splits)

lemma filtered_batch_shape:
  assumes "shape (source E) = [T, R, C]" "filtered_batch E bl i = Inr m"
  shows "\<exists>x y. shape m = [min (i + bl) T - i, x, y]"
proof -
  from assms(2) obtain images out diff where
    h: "cm_load E i (i + bl) = Inr images" "model_predict E (np_expand_dims_last images) = Inr out"
       "np_subtract images (np_squeeze out) = Inr diff" "m = np_maximum0 diff"
    unfolding filtered_batch_Inr by blast
  let ?n = "min (i + bl) T - i"
  have si: "shape images = [?n, R, C]" using cm_load_shape[OF assms(1) h(1)] .
  have so: "shape out = [?n, R, C, 1]" using model_predict_shape[OF h(2)] si by (simp add: np_expand_dims_last_def)
  have "broadcast_shapes [?n, R, C] (filter (\<lambda>d. d \<noteq> 1) [?n, R, C, 1]) = Some (shape diff)"
    using np_subtract_shape[OF h(3)] si so by (simp add: np_squeeze_def)
  from broadcast_squeezed_frames[OF this] show ?thesis using h(4) by (simp add: np_maximum0_def)
qed

lemma filtered_batch_shape_same:
  assumes "shape (source E) = [T, R, C]" "filtered_batch E bl i = Inr m"
    "R \<noteq> 1" "C \<noteq> 1"
  shows "shape m = [min (i + bl) T - i, R, C]"
proof -
  from assms(2) obtain images out diff where
    h: "cm_load E i (i + bl) = Inr images" "model_predict E (np_expand_dims_last images) = Inr out"
       "np_subtract images (np_squeeze out) = Inr diff" "m = np_maximum0 diff"
    unfolding filtered_batch_Inr by blast
  let ?n = "min (i + bl) T - i"
  have si: "shape images = [?n, R, C]" using cm_load_shape[OF assms(1) h(1)] .
  have so: "shape out = [?n, R, C, 1]" using model_predict_shape[OF h(2)] si by (simp add: np_expand_dims_last_def)
  have "broadcast_shapes [?n, R, C] (filter (\<lambda>d. d \<noteq> 1) [?n, R, C, 1]) = Some (shape diff)"
    using np_subtract_shape[OF h(3)] si so by (simp add: np_squeeze_def)
  with broadcast_squeezed_same[OF assms(3,4)] show ?thesis using h(4) by (simp add: np_maximum0_def)
qed

lemma run_Inr:
  assumes "shape (source E) = [T, R, C]" "run E bl s0 = Inr s"
  shows "0 < bl \<and> for_each (batch_step E bl) (py_range 0 T bl) (s0\<lparr>saved_files := []\<rparr>) = Inr s"
  using assms by (auto simp: run_def get_file_size_def batch_loop_def Let_def split: if_splits)

lemma frame_count_written:
  assumes "shape (source E) = [T, R, C]" "filtered_batch E bl i = Inr m"
  shows "frame_count (Some m) = min (i + bl) T - i"
  using filtered_batch_shape[OF assms] by (auto simp: frame_count_def batch_frames_def)

lemma distinct_temp_files: "distinct xs \<Longrightarrow> distinct (map (temp_file_name fld) xs)"
  by (simp add: distinct_map inj_on_def) (metis temp_file_name_inj)

lemma distinct_py_range: "distinct (py_range i T step)"
  using sorted_py_range[of i T step] by (simp add: strict_sorted_iff)

subsection \<open>C1: number of files and frame accounting\<close>

text \<open>
  C1. For every total frame count T and every batch length of at least 1, a run that
  completes has recorded exactly \<open>ceil(T / batch_length)\<close> output files, all different and
  all written, it has touched no other file, and the frame counts of the written files
  add up to T.
\<close>

theorem run_file_count_and_frames:
  assumes "shape (source E) = [T, R, C]" and "1 \<le> batch_length"
    and "run E batch_length s0 = Inr s"
  shows "length (saved_files s) = nat \<lceil>real T / real batch_length\<rceil> \<and>
         distinct (saved_files s) \<and>
         (\<forall>p\<in>set (saved_files s). fs s p \<noteq> None) \<and>
         (\<forall>p. p \<notin> set (saved_files s) \<longrightarrow> fs s p = fs s0 p) \<and>
         (\<Sum>p\<leftarrow>saved_files s. frame_count (fs s p)) = T"
proof -
  let ?xs = "py_range 0 T batch_length"
  let ?path = "temp_file_name (fld_name E)"
  have pos: "0 < batch_length" using assms(2) by simp
  have loop: "for_each (batch_step E batch_length) ?xs (s0\<lparr>saved_files := []\<rparr>) = Inr s"
    using run_Inr[OF assms(1,3)] by simp
  have files: "saved_files s = map ?path ?xs"
    and ok: "\<forall>i\<in>set ?xs. \<exists>m. filtered_batch E batch_length i = Inr m \<and> \<not> write_fault E (?path i)"
    using loop_Inr[OF loop] by simp_all
  have written: "fs s (?path i) = Some m"
    if "i \<in> set ?xs" "filtered_batch E batch_length i = Inr m" for i m
    using loop_fs_written[OF loop that] .
  have n: "length (saved_files s) = nat \<lceil>real T / real batch_length\<rceil>"
    using files length_py_range[OF pos, of 0 T] ceil_div[OF pos, of T] by simp
  have d: "distinct (saved_files s)"
    unfolding files by (rule distinct_temp_files[OF distinct_py_range])
  have w: "\<forall>p\<in>set (saved_files s). fs s p \<noteq> None"
    unfolding files using ok written by fastforce
  have o: "\<forall>p. p \<notin> set (saved_files s) \<longrightarrow> fs s p = fs s0 p"
    using loop_fs_other[OF loop] files by simp
  have "frame_count (fs s (?path i)) = min (i + batch_length) T - i" if "i \<in> set ?xs" for i
  proof -
    from ok that obtain m where m: "filtered_batch E batch_length i = Inr m" by blast
    show ?thesis using written[OF that m] frame_count_written[OF assms(1) m] by simp
  qed
  then have "(\<Sum>p\<leftarrow>saved_files s. frame_count (fs s p)) = (\<Sum>i\<leftarrow>?xs. min (i + batch_length) T - i)"
    unfolding files by (simp add: comp_def cong: map_cong)
  also have "\<dots> = T - 0" by (rule sum_batch_sizes[OF pos])
  finally show ?thesis using n d w o by simp
qed

lemma Inr_final_state: "raised r = None \<Longrightarrow> r = Inr (final_state r)"
  by (cases r) (auto simp: raised_def final_state_def)

theorem run_file_count_and_frames_witness:
  "shape (source example_env) = [3, 2, 2] \<and> (1::nat) \<le> 2 \<and>
   run example_env 2 empty_state = Inr (final_state (run example_env 2 empty_state)) \<and>
   length (saved_files (final_state (run example_env 2 empty_state))) = 2 \<and>
   distinct (saved_files (final_state (run example_env 2 empty_state))) \<and>
   (\<Sum>p\<leftarrow>saved_files (final_state (run example_env 2 empty_state)).
      frame_count (fs (final_state (run example_env 2 empty_state)) p)) = 3"
proof -
  have h1: "shape (source example_env) = [3, 2, 2]" by (simp add: example_env_def)
  have h2: "(1::nat) \<le> 2" by simp
  have "raised (run example_env 2 empty_state) = None" by code_simp
  then have h3: "run example_env 2 empty_state = Inr (final_state (run example_env 2 empty_state))"
    by (rule Inr_final_state)
  have c: "nat \<lceil>real 3 / real 2\<rceil> = 2" by simp
  show ?thesis using run_file_count_and_frames[OF h1 h2 h3] h1 h3 c by simp
qed

subsection \<open>C9: a movie without frames\<close>

text \<open>
  C9. When the source movie has T = 0 frames, the run makes no call at all (so no model
  inference), writes no file and ends with the empty list of output paths.
\<close>

theorem empty_movie_run:
  assumes "shape (source E) = [0, R, C]" and "0 < batch_length"
  shows "run E batch_length s0 = Inr (s0\<lparr>saved_files := []\<rparr>) \<and>
         saved_files (final_state (run E batch_length s0)) = [] \<and>
         calls (final_state (run E batch_length s0)) = calls s0 \<and>
         fs (final_state (run E batch_length s0)) = fs s0"
proof -
  have "run E batch_length s0 = Inr (s0\<lparr>saved_files := []\<rparr>)"
    using assms by (simp add: run_def get_file_size_def batch_loop_def py_range_nil)
  then show ?thesis by (simp add: final_state_def)
qed

theorem empty_movie_run_witness:
  "shape (source empty_movie_env) = [0, 2, 2] \<and> (0::nat) < notebook_batch_length \<and>
   run empty_movie_env notebook_batch_length empty_state = Inr (empty_state\<lparr>saved_files := []\<rparr>) \<and>
   calls (final_state (run empty_movie_env notebook_batch_length empty_state)) = []"
proof -
  have h1: "shape (source empty_movie_env) = [0, 2, 2]" by (simp add: empty_movie_env_def)
  have h2: "(0::nat) < notebook_batch_length" by (simp add: notebook_batch_length_def)
  have c: "calls empty_state = []" by (simp add: empty_state_def)
  note t = empty_movie_run[OF h1 h2, of empty_state]
  have a: "run empty_movie_env notebook_batch_length empty_state = Inr (empty_state\<lparr>saved_files := []\<rparr>)"
    using t by blast
  have "calls (final_state (run empty_movie_env notebook_batch_length empty_state)) = calls empty_state"
    using t by blast
  then have b: "calls (final_state (run empty_movie_env notebook_batch_length empty_state)) = []"
    by (simp only: c)
  show ?thesis by (intro conjI h1 h2 a b)
qed

subsection \<open>C5: zero-padded file names\<close>

lemma digit_char_numeral:
  "digit_char 0 = CHR ''0''" "digit_char 1 = CHR ''1''" "digit_char 2 = CHR ''2''"
  "digit_char 3 = CHR ''3''" "digit_char 4 = CHR ''4''" "digit_char 5 = CHR ''5''"
  "digit_char 6 = CHR ''6''" "digit_char 7 = CHR ''7''" "digit_char 8 = CHR ''8''"
  "digit_char 9 = CHR ''9''" "digit_char (Suc 0) = CHR ''1''"
  by code_simp+

lemma digit_char_0: "digit_char 0 = CHR ''0''"
  by code_simp

lemma fixed_digits_zero: "fixed_digits w 0 = replicate w (CHR ''0'')"
  by (induction w) (simp_all add: digit_char_0 replicate_append_same)

lemma length_fixed_digits: "length (fixed_digits w n) = w"
  by (induction w arbitrary: n) simp_all

lemma pad_str_nat:
  "n < 10 ^ w \<Longrightarrow> 0 < w \<Longrightarrow>
     replicate (w - length (str_nat n)) (CHR ''0'') @ str_nat n = fixed_digits w n"
proof (induction n arbitrary: w rule: str_nat.induct)
  case (1 n)
  from 1(3) obtain w' where w: "w = Suc w'" by (cases w) auto
  show ?case
  proof (cases "n < 10")
    case True
    then show ?thesis unfolding w
      by (subst (1 2) str_nat.simps) (simp add: fixed_digits_zero)
  next
    case False
    have small: "n div 10 < 10 ^ w'" using 1(2) w by (simp add: less_mult_imp_div_less mult.commute)
    have pos: "0 < w'" using False 1(2) w by (cases w') auto
    have ih: "replicate (w' - length (str_nat (n div 10))) (CHR ''0'') @ str_nat (n div 10)
                = fixed_digits w' (n div 10)"
      using 1(1)[OF False small pos] .
    have s: "str_nat n = str_nat (n div 10) @ [digit_char (n mod 10)]"
      using False by (subst str_nat.simps) simp
    show ?thesis unfolding w s using ih by simp
  qed
qed

lemma format_05d_fixed: "i < 100000 \<Longrightarrow> format_05d i = fixed_digits 5 i"
  unfolding format_05d_def using pad_str_nat[of i 5] by simp

lemma digit_char_less: "a < b \<Longrightarrow> b < 10 \<Longrightarrow> digit_char a < digit_char b"
  by (simp add: less_char_def digit_char_def)

lemma less_append_same_length:
  fixes xs ys :: "'a::linorder list"
  shows "xs < ys \<Longrightarrow> length xs = length ys \<Longrightarrow> xs @ us < ys @ vs"
  unfolding list_less_def by (rule lexord_sufI) simp_all

lemma less_append_prefix:
  fixes us vs :: "'a::linorder list"
  shows "xs @ us < xs @ vs \<longleftrightarrow> us < vs"
  unfolding list_less_def by (simp add: lexord_same_pref_iff)

lemma fixed_digits_less: "i < j \<Longrightarrow> j < 10 ^ w \<Longrightarrow> fixed_digits w i < fixed_digits w j"
proof (induction w arbitrary: i j)
  case 0
  then show ?case by simp
next
  case (Suc w)
  have small: "j div 10 < 10 ^ w" using Suc.prems(2) by (simp add: less_mult_imp_div_less mult.commute)
  show ?case
  proof (cases "i div 10 < j div 10")
    case True
    from Suc.IH[OF True small] show ?thesis
      by (simp add: less_append_same_length length_fixed_digits)
  next
    case False
    then have eq: "i div 10 = j div 10" using Suc.prems(1) by (simp add: div_le_mono order_antisym)
    have "i mod 10 < j mod 10"
      using Suc.prems(1) eq by (metis div_mult_mod_eq nat_add_left_cancel_less)
    then have "digit_char (i mod 10) < digit_char (j mod 10)" by (rule digit_char_less) simp
    then show ?thesis by (simp add: eq less_append_prefix)
  qed
qed

lemma temp_file_name_less:
  assumes "i < j" "j < 100000"
  shows "temp_file_name fld i < temp_file_name fld j"
proof -
  obtain pre where p: "\<And>k. temp_file_name fld k = pre @ ''pfc_back_removed_'' @ format_05d k @ ''.h5''"
    using temp_file_name_split by blast
  have "fixed_digits 5 i < fixed_digits 5 j" using fixed_digits_less[of i j 5] assms by simp
  then have "fixed_digits 5 i @ ''.h5'' < fixed_digits 5 j @ ''.h5''"
    by (rule less_append_same_length) (simp add: length_fixed_digits)
  then show ?thesis
    unfolding p using assms by (simp add: format_05d_fixed less_append_prefix del: append.simps)
qed

lemma temp_file_name_less_iff:
  assumes "i < 100000" "j < 100000"
  shows "(temp_file_name fld i < temp_file_name fld j) = (i < j)"
proof (cases i j rule: linorder_cases)
  case less
  then show ?thesis using temp_file_name_less[OF less assms(2)] by simp
next
  case equal
  then show ?thesis by simp
next
  case greater
  then show ?thesis using temp_file_name_less[OF greater assms(1), of fld] by (simp add: not_less_iff_gr_or_eq)
qed

lemma length_format_05d: "i < 100000 \<Longrightarrow> length (format_05d i) = 5"
  by (simp add: format_05d_fixed length_fixed_digits)

text \<open>
  C5, as the code has it. The file name of a batch embeds its start index, zero-padded to
  at least 5 digits, and a completed run's list of output paths has one path per batch
  in ascending frame order, for every T. The lexicographic order of the names agrees with
  the frame order as long as every start index has at most 5 digits, that is for
  \<open>T \<le> 100000\<close>: \<^verbatim>\<open>format(i, '05d')\<close> does not cut a longer number.
\<close>

theorem zero_padded_names_ordered:
  assumes "shape (source E) = [T, R, C]" and "run E batch_length s0 = Inr s"
  shows "saved_files s = map (temp_file_name (fld_name E)) (py_range 0 T batch_length) \<and>
         sorted_wrt (<) (py_range 0 T batch_length) \<and>
         (\<exists>dir. \<forall>i. temp_file_name (fld_name E) i
                         = dir @ ''pfc_back_removed_'' @ format_05d i @ ''.h5'') \<and>
         (\<forall>i\<in>set (py_range 0 T batch_length).
            5 \<le> length (format_05d i) \<and> dec_value (format_05d i) = i) \<and>
         (T \<le> 100000 \<longrightarrow>
            (\<forall>i\<in>set (py_range 0 T batch_length). length (format_05d i) = 5) \<and>
            sorted_wrt (<) (saved_files s) \<and>
            (\<forall>i\<in>set (py_range 0 T batch_length). \<forall>j\<in>set (py_range 0 T batch_length).
               (temp_file_name (fld_name E) i < temp_file_name (fld_name E) j) = (i < j)))"
proof -
  let ?xs = "py_range 0 T batch_length"
  let ?path = "temp_file_name (fld_name E)"
  have loop: "for_each (batch_step E batch_length) ?xs (s0\<lparr>saved_files := []\<rparr>) = Inr s"
    using run_Inr[OF assms] by simp
  have files: "saved_files s = map ?path ?xs" using loop_Inr[OF loop] by simp
  have asc: "sorted_wrt (<) ?xs" by (rule sorted_py_range)
  have nm: "\<exists>dir. \<forall>i. ?path i = dir @ ''pfc_back_removed_'' @ format_05d i @ ''.h5''"
    by (rule temp_file_name_split)
  have "5 \<le> length (format_05d i)" for i by (simp add: format_05d_def)
  then have emb: "\<forall>i\<in>set ?xs. 5 \<le> length (format_05d i) \<and> dec_value (format_05d i) = i"
    by (simp add: dec_value_format_05d)
  have lex: "(\<forall>i\<in>set ?xs. length (format_05d i) = 5) \<and> sorted_wrt (<) (saved_files s) \<and>
             (\<forall>i\<in>set ?xs. \<forall>j\<in>set ?xs. (?path i < ?path j) = (i < j))" if T: "T \<le> 100000"
  proof -
    have small: "i < 100000" if "i \<in> set ?xs" for i
      using py_range_lower[OF that] T by simp
    have a: "\<forall>i\<in>set ?xs. length (format_05d i) = 5" using small by (simp add: length_format_05d)
    have c: "\<forall>i\<in>set ?xs. \<forall>j\<in>set ?xs. (?path i < ?path j) = (i < j)"
      using small by (simp add: temp_file_name_less_iff)
    have "sorted_wrt (\<lambda>i j. ?path i < ?path j) ?xs"
      by (rule sorted_wrt_mono_rel[OF _ asc]) (simp add: c)
    then have b: "sorted_wrt (<) (saved_files s)" unfolding files by (simp add: sorted_wrt_map)
    show ?thesis using a b c by blast
  qed
  show ?thesis using files asc nm emb lex by blast
qed

theorem zero_padded_names_ordered_witness:
  "shape (source example_env) = [3, 2, 2] \<and>
   run example_env 2 empty_state = Inr (final_state (run example_env 2 empty_state)) \<and>
   (3::nat) \<le> 100000 \<and>
   saved_files (final_state (run example_env 2 empty_state))
     = map (temp_file_name (fld_name example_env)) (py_range 0 3 2) \<and>
   sorted_wrt (<) (saved_files (final_state (run example_env 2 empty_state)))"
proof -
  have h1: "shape (source example_env) = [3, 2, 2]" by (simp add: example_env_def)
  have "raised (run example_env 2 empty_state) = None" by code_simp
  then have h2: "run example_env 2 empty_state = Inr (final_state (run example_env 2 empty_state))"
    by (rule Inr_final_state)
  have h3: "(3::nat) \<le> 100000" by simp
  from zero_padded_names_ordered[OF h1 h2]
  have a: "saved_files (final_state (run example_env 2 empty_state))
             = map (temp_file_name (fld_name example_env)) (py_range 0 3 2)"
    and b: "sorted_wrt (<) (saved_files (final_state (run example_env 2 empty_state)))"
    using h3 by blast+
  show ?thesis by (intro conjI h1 h2 h3 a b)
qed

text \<open>
  C5 as stated fails for a longer movie. With the notebook's batch length 256 and
  T = 100097 frames, the batches starting at 99840 and at 100096 both occur, and the name
  of the later one comes first in the lexicographic order (\<open>pfc_back_removed_100096.h5\<close>
  before \<open>pfc_back_removed_99840.h5\<close>).
\<close>

theorem zero_padded_names_counterexample:
  "99840 \<in> set (py_range 0 100097 256) \<and> 100096 \<in> set (py_range 0 100097 256) \<and>
   (99840::nat) < 100096 \<and>
   temp_file_name ''out'' 100096 < temp_file_name ''out'' 99840"
proof -
  have a: "(99840::nat) \<in> set (py_range 0 100097 256)"
    by (simp add: set_py_range)
  have b: "(100096::nat) \<in> set (py_range 0 100097 256)"
    by (simp add: set_py_range)
  have c: "temp_file_name ''out'' 100096 < temp_file_name ''out'' 99840"
    by (simp add: temp_file_name_def os_path_join_def format_05d_def str_nat.simps digit_char_numeral)
  show ?thesis using a b c by simp
qed

subsection \<open>Failing batches\<close>

lemma filtered_batch_error:
  "filtered_batch E bl i = Inl e \<Longrightarrow> e \<noteq> PersistenceError"
  by (auto simp: filtered_batch_def cm_load_def model_predict_def np_subtract_def
           split: sum.splits if_splits list.splits option.splits)

lemma batch_step_Inl:
  assumes "batch_step E bl i s = Inl (e, s')"
  shows "fs s' = fs s \<and> mmap_file s' = mmap_file s \<and> images_mmap s' = images_mmap s \<and>
     (\<exists>cs. calls s' = calls s @ cs \<and> set cs \<subseteq> {Load i, Predict i, Save i} \<and> distinct cs) \<and>
     (filtered_batch E bl i = Inl e \<and>
        (saved_files s' = saved_files s \<or>
         saved_files s' = saved_files s @ [temp_file_name (fld_name E) i]) \<or>
      (\<exists>m. filtered_batch E bl i = Inr m) \<and> write_fault E (temp_file_name (fld_name E) i) \<and>
      e = PersistenceError \<and> saved_files s' = saved_files s @ [temp_file_name (fld_name E) i])"
  using assms
  by (auto simp: batch_step_def filtered_batch_def movie_save_def Let_def
      split: sum.splits if_splits)

lemma batch_step_fails:
  assumes "filtered_batch E bl i = Inl e \<or>
      (\<exists>m. filtered_batch E bl i = Inr m) \<and> write_fault E (temp_file_name (fld_name E) i) \<and>
      e = PersistenceError"
  shows "\<exists>s'. batch_step E bl i s = Inl (e, s')"
  using assms
  by (auto simp: batch_step_def filtered_batch_def movie_save_def Let_def split: sum.splits)

lemma loop_succeeds:
  "\<forall>j\<in>set xs. (\<exists>m. filtered_batch E bl j = Inr m) \<and> \<not> write_fault E (temp_file_name (fld_name E) j)
   \<Longrightarrow> \<exists>s'. for_each (batch_step E bl) xs s = Inr s'"
proof (induction xs arbitrary: s)
  case Nil
  then show ?case by simp
next
  case (Cons x xs)
  then obtain m where m: "filtered_batch E bl x = Inr m" "\<not> write_fault E (temp_file_name (fld_name E) x)"
    by auto
  then obtain s1 where s1: "batch_step E bl x s = Inr s1" unfolding batch_step_Inr by blast
  from Cons.IH[of s1] Cons.prems obtain s' where "for_each (batch_step E bl) xs s1 = Inr s'" by auto
  with s1 show ?case by simp
qed

lemma loop_images_mmap:
  "for_each (batch_step E bl) xs s = Inr s' \<Longrightarrow> images_mmap s' = images_mmap s"
proof (induction xs arbitrary: s)
  case Nil
  then show ?case by simp
next
  case (Cons x xs)
  from Cons.prems obtain s1 where s1: "batch_step E bl x s = Inr s1" "for_each (batch_step E bl) xs s1 = Inr s'"
    by (auto split: sum.splits)
  from s1(1) have "images_mmap s1 = images_mmap s" unfolding batch_step_Inr by auto
  with Cons.IH[OF s1(2)] show ?case by simp
qed

lemma pipeline_Inl: "run E bl s0 = Inl es \<Longrightarrow> pipeline E bl s0 = Inl es"
  by (simp add: pipeline_def)

lemma run_loop:
  assumes "shape (source E) = [T, R, C]" "0 < bl"
  shows "run E bl s0 = for_each (batch_step E bl) (py_range 0 T bl) (s0\<lparr>saved_files := []\<rparr>)"
  using assms by (simp add: run_def get_file_size_def batch_loop_def)

subsection \<open>C6: fail-fast\<close>

text \<open>
  C6. Let batch \<open>i\<close> be the first batch whose processing fails, in the source read, the
  model inference, the subtraction or the write. Then the whole pipeline ends with that
  error; the files of the batches before \<open>i\<close> are on disk with their filtered contents;
  no file is written for batch \<open>i\<close> or a later batch and no other file is touched; every
  call made serves a batch up to \<open>i\<close> and no call is repeated; and no composite is
  produced. With T = 1000, batch length 256 and a model failing at start index 512
  (\<open>before = [0, 256]\<close>), the files of the batches 0 and 256 remain.
\<close>

theorem fail_fast:
  assumes "shape (source E) = [T, R, C]" and "0 < batch_length"
    and "py_range 0 T batch_length = before @ i # after"
    and "\<forall>j\<in>set before. (\<exists>m. filtered_batch E batch_length j = Inr m) \<and>
            \<not> write_fault E (temp_file_name (fld_name E) j)"
    and "filtered_batch E batch_length i = Inl e \<or>
         (\<exists>m. filtered_batch E batch_length i = Inr m) \<and>
         write_fault E (temp_file_name (fld_name E) i) \<and> e = PersistenceError"
  shows "raised (pipeline E batch_length s0) = Some e \<and>
     (\<forall>j\<in>set before. \<exists>m. filtered_batch E batch_length j = Inr m \<and>
        fs (final_state (pipeline E batch_length s0)) (temp_file_name (fld_name E) j) = Some m) \<and>
     (\<forall>j\<in>set (i # after).
        fs (final_state (pipeline E batch_length s0)) (temp_file_name (fld_name E) j)
          = fs s0 (temp_file_name (fld_name E) j)) \<and>
     (\<forall>p. p \<notin> temp_file_name (fld_name E) ` set before \<longrightarrow>
        fs (final_state (pipeline E batch_length s0)) p = fs s0 p) \<and>
     (\<exists>cs. calls (final_state (pipeline E batch_length s0))
             = calls s0 @ concat (map (\<lambda>j. [Load j, Predict j, Save j]) before) @ cs \<and>
           set cs \<subseteq> {Load i, Predict i, Save i} \<and> distinct cs) \<and>
     mmap_file (final_state (pipeline E batch_length s0)) = mmap_file s0 \<and>
     images_mmap (final_state (pipeline E batch_length s0)) = images_mmap s0"
proof -
  let ?body = "batch_step E batch_length"
  let ?path = "temp_file_name (fld_name E)"
  let ?s0 = "s0\<lparr>saved_files := []\<rparr>"
  obtain s1 where s1: "for_each ?body before ?s0 = Inr s1"
    using loop_succeeds[OF assms(4)] by blast
  obtain s2 where s2: "?body i s1 = Inl (e, s2)"
    using batch_step_fails[OF assms(5)] by blast
  have "for_each ?body (before @ i # after) ?s0 = Inl (e, s2)"
    using s1 s2 by (simp add: for_each_append)
  then have "run E batch_length s0 = Inl (e, s2)"
    using run_loop[OF assms(1,2)] assms(3) by simp
  then have p: "pipeline E batch_length s0 = Inl (e, s2)" by (rule pipeline_Inl)
  then have fin: "final_state (pipeline E batch_length s0) = s2"
    and r: "raised (pipeline E batch_length s0) = Some e"
    by (simp_all add: final_state_def raised_def)
  note st = batch_step_Inl[OF s2]
  note lp = loop_Inr[OF s1]
  have fs2: "fs s2 = fs s1" using st by blast
  have a: "\<forall>j\<in>set before. \<exists>m. filtered_batch E batch_length j = Inr m \<and> fs s2 (?path j) = Some m"
  proof
    fix j assume j: "j \<in> set before"
    with assms(4) obtain m where m: "filtered_batch E batch_length j = Inr m" by blast
    from loop_fs_written[OF s1 j m] fs2 m
    show "\<exists>m. filtered_batch E batch_length j = Inr m \<and> fs s2 (?path j) = Some m" by simp
  qed
  have o: "\<forall>p. p \<notin> ?path ` set before \<longrightarrow> fs s2 p = fs s0 p"
    using loop_fs_other[OF s1] fs2 by simp
  have dist: "distinct (before @ i # after)" using distinct_py_range[of 0 T batch_length] assms(3) by simp
  have b: "\<forall>j\<in>set (i # after). fs s2 (?path j) = fs s0 (?path j)"
  proof
    fix j assume j: "j \<in> set (i # after)"
    then have "j \<notin> set before" using dist by auto
    then have "?path j \<notin> ?path ` set before" using temp_file_name_inj by blast
    with o show "fs s2 (?path j) = fs s0 (?path j)" by simp
  qed
  from st obtain cs where cs: "calls s2 = calls s1 @ cs" "set cs \<subseteq> {Load i, Predict i, Save i}" "distinct cs"
    by blast
  have c: "\<exists>cs. calls s2 = calls s0 @ concat (map (\<lambda>j. [Load j, Predict j, Save j]) before) @ cs \<and>
           set cs \<subseteq> {Load i, Predict i, Save i} \<and> distinct cs"
    using cs lp by (intro exI[of _ cs]) simp
  have m: "mmap_file s2 = mmap_file s0" using st lp by simp
  have im: "images_mmap s2 = images_mmap s0" using st loop_images_mmap[OF s1] by simp
  show ?thesis unfolding fin using r a b o c m im by blast
qed

lemma first_value:
  "k \<le> 3 \<Longrightarrow> hd (take 1024 (drop (k * 1024) (map (\<lambda>n. Val (real n)) [0..<4000]))) = Val (real (k * 1024))"
  by (simp add: take_map drop_map hd_map hd_take hd_drop_conv_nth del: upt_rec_numeral)

lemma scenario_batch_0: "\<exists>m. filtered_batch scenario_env 256 0 = Inr m"
  using first_value[of 0]
  by (simp add: filtered_batch_def cm_load_def scenario_env_def model_predict_def
      np_expand_dims_last_def np_squeeze_def np_subtract_def broadcast_shapes_def del: upt_rec_numeral)

lemma scenario_batch_256: "\<exists>m. filtered_batch scenario_env 256 256 = Inr m"
  using first_value[of 1]
  by (simp add: filtered_batch_def cm_load_def scenario_env_def model_predict_def
      np_expand_dims_last_def np_squeeze_def np_subtract_def broadcast_shapes_def del: upt_rec_numeral)

lemma scenario_batch_512: "filtered_batch scenario_env 256 512 = Inl ModelInferenceError"
  using first_value[of 2]
  by (simp add: filtered_batch_def cm_load_def scenario_env_def model_predict_def
      np_expand_dims_last_def del: upt_rec_numeral)

lemma replicate_zeros:
  "replicate 4 c = [c, c, c, c]" "replicate 3 c = [c, c, c]" "replicate 2 c = [c, c]"
  by (simp_all add: numeral_eq_Suc)

lemma scenario_names:
  "temp_file_name ''out'' 0 = ''out/pfc_back_removed_00000.h5''"
  "temp_file_name ''out'' 256 = ''out/pfc_back_removed_00256.h5''"
  "temp_file_name ''out'' 512 = ''out/pfc_back_removed_00512.h5''"
  "temp_file_name ''out'' 768 = ''out/pfc_back_removed_00768.h5''"
  by (simp_all add: temp_file_name_def os_path_join_def format_05d_def str_nat.simps
        digit_char_numeral replicate_zeros)

theorem fail_fast_witness:
  "shape (source scenario_env) = [1000, 2, 2] \<and> (0::nat) < 256 \<and>
   py_range 0 1000 256 = [0, 256] @ 512 # [768] \<and>
   filtered_batch scenario_env 256 512 = Inl ModelInferenceError \<and>
   raised (pipeline scenario_env 256 empty_state) = Some ModelInferenceError \<and>
   fs (final_state (pipeline scenario_env 256 empty_state)) ''out/pfc_back_removed_00000.h5'' \<noteq> None \<and>
   fs (final_state (pipeline scenario_env 256 empty_state)) ''out/pfc_back_removed_00256.h5'' \<noteq> None \<and>
   fs (final_state (pipeline scenario_env 256 empty_state)) ''out/pfc_back_removed_00512.h5'' = None \<and>
   fs (final_state (pipeline scenario_env 256 empty_state)) ''out/pfc_back_removed_00768.h5'' = None \<and>
   mmap_file (final_state (pipeline scenario_env 256 empty_state)) = None"
proof -
  let ?s = "final_state (pipeline scenario_env 256 empty_state)"
  have h1: "shape (source scenario_env) = [1000, 2, 2]" by (simp add: scenario_env_def)
  have h2: "(0::nat) < 256" by simp
  have h3: "py_range 0 1000 256 = [0, 256] @ 512 # [768]" by code_simp
  have fld: "fld_name scenario_env = ''out''" by (simp add: scenario_env_def)
  have h4: "\<forall>j\<in>set [0, 256]. (\<exists>m. filtered_batch scenario_env 256 j = Inr m) \<and>
              \<not> write_fault scenario_env (temp_file_name (fld_name scenario_env) j)"
    using scenario_batch_0 scenario_batch_256 by (simp add: scenario_env_def)
  have f: "filtered_batch scenario_env 256 512 = Inl ModelInferenceError"
    by (rule scenario_batch_512)
  then have h5: "filtered_batch scenario_env 256 512 = Inl ModelInferenceError \<or>
      (\<exists>m. filtered_batch scenario_env 256 512 = Inr m) \<and>
      write_fault scenario_env (temp_file_name (fld_name scenario_env) 512) \<and>
      ModelInferenceError = PersistenceError" by simp
  note t = fail_fast[OF h1 h2 h3 h4 h5, of empty_state]
  have e: "fs empty_state = (\<lambda>p. None)" "mmap_file empty_state = None"
    by (simp_all add: empty_state_def)
  have r: "raised (pipeline scenario_env 256 empty_state) = Some ModelInferenceError"
    using t by blast
  have "\<forall>j\<in>set [0, 256]. \<exists>m. filtered_batch scenario_env 256 j = Inr m \<and>
          fs ?s (temp_file_name (fld_name scenario_env) j) = Some m"
    using t by blast
  then have a: "fs ?s ''out/pfc_back_removed_00000.h5'' \<noteq> None"
    and b: "fs ?s ''out/pfc_back_removed_00256.h5'' \<noteq> None"
    unfolding fld by (auto simp: scenario_names)
  have "\<forall>j\<in>set [512, 768]. fs ?s (temp_file_name (fld_name scenario_env) j)
          = fs empty_state (temp_file_name (fld_name scenario_env) j)"
    using t by blast
  then have c: "fs ?s ''out/pfc_back_removed_00512.h5'' = None"
    and d: "fs ?s ''out/pfc_back_removed_00768.h5'' = None"
    unfolding fld e by (auto simp: scenario_names)
  have "mmap_file ?s = mmap_file empty_state" using t by blast
  then have m: "mmap_file ?s = None" by (simp only: e)
  show ?thesis by (intro conjI h1 h2 h3 f r a b c d m)
qed

subsection \<open>C7: recording and persisting\<close>

text \<open>
  C7, as the code has it. The loop body appends the path to \<open>saved_files\<close> before it saves
  the batch (lines 329 and 331). So: after a run that completes, every recorded path names
  a written file; in every run, every recorded path but the last names a written file;
  and when a batch write fails, the failing batch's path is recorded, as the last one,
  and the write has left no file for it.
\<close>

theorem record_then_persist:
  assumes "shape (source E) = [T, R, C]"
  shows "(raised (run E batch_length s0) = None \<longrightarrow>
            (\<forall>p\<in>set (saved_files (final_state (run E batch_length s0))).
               fs (final_state (run E batch_length s0)) p \<noteq> None)) \<and>
         (\<forall>p\<in>set (butlast (saved_files (final_state (run E batch_length s0)))).
            fs (final_state (run E batch_length s0)) p \<noteq> None) \<and>
         (raised (run E batch_length s0) = Some PersistenceError \<longrightarrow>
            saved_files (final_state (run E batch_length s0)) \<noteq> [] \<and>
            write_fault E (last (saved_files (final_state (run E batch_length s0)))) \<and>
            fs (final_state (run E batch_length s0)) (last (saved_files (final_state (run E batch_length s0))))
              = fs s0 (last (saved_files (final_state (run E batch_length s0)))))"
proof (cases "batch_length = 0")
  case True
  then have "run E batch_length s0 = Inl (ValueError, s0\<lparr>saved_files := []\<rparr>)"
    using assms by (simp add: run_def get_file_size_def batch_loop_def)
  then show ?thesis by (simp add: raised_def final_state_def)
next
  case False
  then have pos: "0 < batch_length" by simp
  let ?body = "batch_step E batch_length"
  let ?path = "temp_file_name (fld_name E)"
  let ?xs = "py_range 0 T batch_length"
  let ?s0 = "s0\<lparr>saved_files := []\<rparr>"
  have run: "run E batch_length s0 = for_each ?body ?xs ?s0" by (rule run_loop[OF assms pos])
  show ?thesis
  proof (cases "run E batch_length s0")
    case (Inr s)
    then have loop: "for_each ?body ?xs ?s0 = Inr s" using run by simp
    have files: "saved_files s = map ?path ?xs" using loop_Inr[OF loop] by simp
    have "\<forall>p\<in>set (saved_files s). fs s p \<noteq> None"
    proof
      fix p assume "p \<in> set (saved_files s)"
      then obtain i where i: "i \<in> set ?xs" "p = ?path i" using files by auto
      with loop_Inr[OF loop] obtain m where "filtered_batch E batch_length i = Inr m" by blast
      from loop_fs_written[OF loop i(1) this] i(2) show "fs s p \<noteq> None" by simp
    qed
    then show ?thesis using Inr by (auto simp: raised_def final_state_def dest: in_set_butlastD)
  next
    case (Inl es)
    obtain e s where es: "es = (e, s)" by (cases es)
    from Inl es run have "for_each ?body ?xs ?s0 = Inl (e, s)" by simp
    from for_each_Inl[OF this] obtain ys i zs s1 where
      sp: "?xs = ys @ i # zs" and s1: "for_each ?body ys ?s0 = Inr s1" and st: "?body i s1 = Inl (e, s)"
      by blast
    note bs = batch_step_Inl[OF st]
    have fs2: "fs s = fs s1" using bs by blast
    have files1: "saved_files s1 = map ?path ys" using loop_Inr[OF s1] by simp
    have w1: "fs s p \<noteq> None" if "p \<in> set (map ?path ys)" for p
    proof -
      from that obtain j where j: "j \<in> set ys" "p = ?path j" by auto
      with loop_Inr[OF s1] obtain m where "filtered_batch E batch_length j = Inr m" by blast
      from loop_fs_written[OF s1 j(1) this] j(2) fs2 show ?thesis by simp
    qed
    have sf: "saved_files s = map ?path ys \<or> saved_files s = map ?path ys @ [?path i]"
      using bs files1 by auto
    have bl: "\<forall>p\<in>set (butlast (saved_files s)). fs s p \<noteq> None"
      using sf w1 by (auto dest: in_set_butlastD)
    have pe: "saved_files s \<noteq> [] \<and> write_fault E (last (saved_files s)) \<and>
              fs s (last (saved_files s)) = fs s0 (last (saved_files s))"
      if "e = PersistenceError"
    proof -
      from bs that filtered_batch_error[of E batch_length i]
      have wf: "write_fault E (?path i)" and sv: "saved_files s = map ?path ys @ [?path i]"
        using files1 by auto
      have "distinct (ys @ i # zs)" using distinct_py_range[of 0 T batch_length] sp by simp
      then have "i \<notin> set ys" by simp
      then have "?path i \<notin> ?path ` set ys" using temp_file_name_inj by blast
      then have "fs s1 (?path i) = fs ?s0 (?path i)" using loop_fs_other[OF s1] by simp
      then show ?thesis using wf sv fs2 by simp
    qed
    show ?thesis using Inl es bl pe by (simp add: raised_def final_state_def)
  qed
qed

theorem record_then_persist_witness:
  "shape (source write_fault_env) = [3, 2, 2] \<and>
   raised (run write_fault_env 2 empty_state) = Some PersistenceError \<and>
   saved_files (final_state (run write_fault_env 2 empty_state)) \<noteq> [] \<and>
   write_fault write_fault_env (last (saved_files (final_state (run write_fault_env 2 empty_state)))) \<and>
   fs (final_state (run write_fault_env 2 empty_state))
      (last (saved_files (final_state (run write_fault_env 2 empty_state)))) = None"
proof -
  have h1: "shape (source write_fault_env) = [3, 2, 2]"
    by (simp add: write_fault_env_def example_env_def)
  have h2: "raised (run write_fault_env 2 empty_state) = Some PersistenceError" by code_simp
  have e: "fs empty_state = (\<lambda>p. None)" by (simp add: empty_state_def)
  note t = record_then_persist[OF h1, of 2 empty_state]
  from t h2 have a: "saved_files (final_state (run write_fault_env 2 empty_state)) \<noteq> []"
    and b: "write_fault write_fault_env (last (saved_files (final_state (run write_fault_env 2 empty_state))))"
    and "fs (final_state (run write_fault_env 2 empty_state))
           (last (saved_files (final_state (run write_fault_env 2 empty_state))))
         = fs empty_state (last (saved_files (final_state (run write_fault_env 2 empty_state))))"
    by blast+
  then have c: "fs (final_state (run write_fault_env 2 empty_state))
      (last (saved_files (final_state (run write_fault_env 2 empty_state)))) = None"
    by (simp only: e)
  show ?thesis by (intro conjI h1 h2 a b c)
qed

text \<open>
  C7 as stated fails: on a storage that refuses the write of the first batch, the run ends
  with a PersistenceError and the list of recorded paths holds the path of that batch,
  for which there is no file.
\<close>

theorem persist_before_record_counterexample:
  "raised (run write_fault_env 2 empty_state) = Some PersistenceError \<and>
   saved_files (final_state (run write_fault_env 2 empty_state)) = [''out/pfc_back_removed_00000.h5''] \<and>
   fs (final_state (run write_fault_env 2 empty_state)) ''out/pfc_back_removed_00000.h5'' = None"
  by code_simp

subsection \<open>The filtered batch of frames without a unit axis\<close>

lemma concat_chunks:
  "length d = n * p \<Longrightarrow> concat (map (\<lambda>k. take p (drop (k * p) d)) [0..<n]) = d"
proof (induction n arbitrary: d)
  case 0
  then show ?case by simp
next
  case (Suc n)
  have l: "length (drop p d) = n * p" using Suc.prems by simp
  have "[0..<Suc n] = 0 # [Suc 0..<Suc n]" by (simp only: upt_conv_Cons zero_less_Suc)
  also have "[Suc 0..<Suc n] = map Suc [0..<n]" by (simp only: map_Suc_upt)
  finally have "[0..<Suc n] = 0 # map Suc [0..<n]" .
  then have "concat (map (\<lambda>k. take p (drop (k * p) d)) [0..<Suc n])
      = take p d @ concat (map (\<lambda>k. take p (drop (k * p) (drop p d))) [0..<n])"
    by (simp add: comp_def add.commute del: upt_Suc)
  also have "\<dots> = take p d @ drop p d" using Suc.IH[OF l] by simp
  finally show ?case by simp
qed

lemma broadcast_to_same: "length d = prod_list s \<Longrightarrow> broadcast_to s s d = d"
proof (induction s arbitrary: d)
  case Nil
  then show ?case by simp
next
  case (Cons t ts)
  let ?p = "prod_list ts"
  have len: "length d = t * ?p" using Cons.prems by simp
  have "broadcast_to ts ts (take ?p (drop (k * ?p) d)) = take ?p (drop (k * ?p) d)" if "k < t" for k
  proof -
    have "(k + 1) * ?p \<le> t * ?p" using that by (intro mult_le_mono1) simp
    then have "length (take ?p (drop (k * ?p) d)) = ?p" using len by simp
    then show ?thesis by (rule Cons.IH)
  qed
  then have eq: "map (\<lambda>k. broadcast_to ts ts (take ?p (drop (k * ?p) d))) [0..<t]
           = map (\<lambda>k. take ?p (drop (k * ?p) d)) [0..<t]" by simp
  have "broadcast_to (t # ts) (t # ts) d
          = concat (map (\<lambda>k. broadcast_to ts ts (take ?p (drop (k * ?p) d))) [0..<t])" by simp
  also have "\<dots> = concat (map (\<lambda>k. take ?p (drop (k * ?p) d)) [0..<t])" by (simp only: eq)
  also have "\<dots> = d" by (rule concat_chunks[OF len])
  finally show ?case .
qed

lemma cm_load_well_formed:
  assumes "shape (source E) = [T, R, C]" "well_formed (source E)" "cm_load E i j = Inr images"
  shows "length (data images) = (min j T - i) * (R * C)"
proof -
  have d: "data images = take ((min j T - i) * (R * C)) (drop (i * (R * C)) (data (source E)))"
    using assms(1,3) by (auto simp: cm_load_def split: if_splits)
  have l: "length (data (source E)) = T * (R * C)" using assms(1,2) by (simp add: well_formed_def)
  have "min j T - i \<le> T - i" by simp
  then have "(min j T - i) * (R * C) \<le> (T - i) * (R * C)" by (rule mult_le_mono1)
  then have "(min j T - i) * (R * C) \<le> T * (R * C) - i * (R * C)"
    by (simp only: diff_mult_distrib)
  then show ?thesis using d l by simp
qed

lemma squeezed_pad:
  "R \<noteq> 1 \<Longrightarrow> C \<noteq> 1 \<Longrightarrow>
   pad_shape (length [n, R, C]) (filter (\<lambda>d. d \<noteq> 1) [n, R, C, 1]) = [n, R, C]"
  by (cases "n = 1") (simp_all add: pad_shape_def)

lemma np_subtract_elementwise:
  assumes "shape images = [n, R, C]" "shape out = [n, R, C, 1]" "R \<noteq> 1" "C \<noteq> 1"
    "length (data images) = n * (R * C)" "well_formed out"
    "np_subtract images (np_squeeze out) = Inr diff"
  shows "data diff = map2 px_minus (data images) (data out)"
proof -
  let ?r = "[n, R, C]"
  have b: "broadcast_shapes (shape images) (shape (np_squeeze out)) = Some ?r"
    using broadcast_squeezed_same[OF assms(3,4), of n] assms(1,2) by (simp add: np_squeeze_def)
  have lo: "length (data out) = prod_list ?r" using assms(2,6) by (simp add: well_formed_def)
  have li: "length (data images) = prod_list ?r" using assms(5) by simp
  have po: "pad_shape (length ?r) (shape (np_squeeze out)) = ?r"
    using squeezed_pad[OF assms(3,4), of n] assms(2) by (simp add: np_squeeze_def)
  have pi: "pad_shape (length ?r) (shape images) = ?r" using assms(1) by (simp add: pad_shape_def)
  have dq: "data (np_squeeze out) = data out" by (simp add: np_squeeze_def)
  have "np_subtract images (np_squeeze out) =
          Inr \<lparr>shape = ?r,
               data = map2 px_minus (broadcast_to ?r (pad_shape (length ?r) (shape images)) (data images))
                               (broadcast_to ?r (pad_shape (length ?r) (shape (np_squeeze out)))
                                  (data (np_squeeze out)))\<rparr>"
    unfolding np_subtract_def b by (simp only: option.case)
  then have "data diff = map2 px_minus (broadcast_to ?r ?r (data images)) (broadcast_to ?r ?r (data out))"
    unfolding po pi dq using assms(7) by (simp del: broadcast_to.simps)
  then show ?thesis
    unfolding broadcast_to_same[OF li] broadcast_to_same[OF lo] .
qed

text \<open>
  When both spatial dimensions differ from 1, \<^verbatim>\<open>np.squeeze\<close> removes the channel axis only
  (and the frame axis of a one-frame batch, which broadcasting restores): the file of a
  batch holds \<open>max(original - background, 0)\<close> value for value, in the shape of the
  loaded batch.
\<close>

lemma filtered_batch_elementwise:
  assumes "shape (source E) = [T, R, C]" "R \<noteq> 1" "C \<noteq> 1" "well_formed (source E)"
    and "cm_load E i (i + bl) = Inr images"
    and "model_predict E (np_expand_dims_last images) = Inr out" "well_formed out"
  shows "filtered_batch E bl i =
           Inr \<lparr>shape = shape images,
                data = map2 (\<lambda>x b. px_maximum0 (px_minus x b)) (data images) (data out)\<rparr>"
proof -
  let ?n = "min (i + bl) T - i"
  have si: "shape images = [?n, R, C]" by (rule cm_load_shape[OF assms(1,5)])
  have so: "shape out = [?n, R, C, 1]"
    using model_predict_shape[OF assms(6)] si by (simp add: np_expand_dims_last_def)
  have li: "length (data images) = ?n * (R * C)" by (rule cm_load_well_formed[OF assms(1,4,5)])
  have "broadcast_shapes (shape images) (shape (np_squeeze out)) = Some [?n, R, C]"
    using broadcast_squeezed_same[OF assms(2,3), of ?n] si so by (simp add: np_squeeze_def)
  then obtain diff where d: "np_subtract images (np_squeeze out) = Inr diff" "shape diff = [?n, R, C]"
    by (simp add: np_subtract_def)
  have "data diff = map2 px_minus (data images) (data out)"
    by (rule np_subtract_elementwise[OF si so assms(2,3) li assms(7) d(1)])
  then have "np_maximum0 diff = \<lparr>shape = shape images,
       data = map2 (\<lambda>x b. px_maximum0 (px_minus x b)) (data images) (data out)\<rparr>"
    using d(2) si by (simp add: np_maximum0_def map_zip_map2 zip_map_fst_snd split_def)
  then show ?thesis using assms(5,6) d(1) by (simp add: filtered_batch_def cm_movie_def)
qed

text \<open>Every value that \<^verbatim>\<open>np.maximum(a, 0)\<close> returns is NaN or at least 0.\<close>

lemma np_maximum0_values:
  "v \<in> set (data (np_maximum0 a)) \<Longrightarrow> v = NaN \<or> (\<exists>x. v = Val x \<and> 0 \<le> x)"
proof -
  have "px_maximum0 u = NaN \<or> (\<exists>x. px_maximum0 u = Val x \<and> 0 \<le> x)" for u
    by (cases u) simp_all
  then show "v \<in> set (data (np_maximum0 a)) \<Longrightarrow> v = NaN \<or> (\<exists>x. v = Val x \<and> 0 \<le> x)"
    by (auto simp: np_maximum0_def)
qed

subsection \<open>C2: the persisted batch and the clamped difference\<close>

text \<open>
  C2 at a movie of two frames of one row, \<open>[[10, 20]]\<close> and \<open>[[30, 40]]\<close>, for which the
  model estimates the background \<open>[[1, 2]]\<close> and \<open>[[3, 4]]\<close>, with the notebook's batch
  length. \<open>max(original - background, 0)\<close> is \<open>[[9, 18]], [[27, 36]]\<close>. The run completes,
  and the file of the batch holds an array of shape (2, 2, 2) with the values
  9, 18, 7, 16, 29, 38, 27, 36: \<^verbatim>\<open>np.squeeze\<close> has removed the row axis of the model output
  together with the channel axis, and the subtraction has paired every frame with the
  background of both frames.
\<close>

theorem clamped_difference_of_one_row_frames:
  "cm_load one_row_env 0 (0 + notebook_batch_length)
     = Inr \<lparr>shape = [2, 1, 2], data = map Val [10, 20, 30, 40]\<rparr> \<and>
   model_predict one_row_env (np_expand_dims_last \<lparr>shape = [2, 1, 2], data = map Val [10, 20, 30, 40]\<rparr>)
     = Inr \<lparr>shape = [2, 1, 2, 1], data = map Val [1, 2, 3, 4]\<rparr> \<and>
   map2 (\<lambda>x b. px_maximum0 (px_minus x b)) (map Val [10, 20, 30, 40]) (map Val [1, 2, 3, 4])
     = map Val [9, 18, 27, 36] \<and>
   raised (run one_row_env notebook_batch_length empty_state) = None \<and>
   saved_files (final_state (run one_row_env notebook_batch_length empty_state))
     = [''out/pfc_back_removed_00000.h5''] \<and>
   fs (final_state (run one_row_env notebook_batch_length empty_state)) ''out/pfc_back_removed_00000.h5''
     = Some \<lparr>shape = [2, 2, 2], data = map Val [9, 18, 7, 16, 29, 38, 27, 36]\<rparr>"
  by code_simp

subsection \<open>C10: the shape of the persisted batch\<close>

text \<open>
  C10 at movies with a spatial dimension of length 1, with the notebook's batch length.
  Two frames of shape 1 x 2: the model output (2, 1, 2, 1) is squeezed to (2, 2), which
  broadcasts against the loaded batch (2, 1, 2) to (2, 2, 2), the shape of the file. One
  frame of shape 2 x 1, a batch of exactly one frame: (1, 2, 1, 1) is squeezed to (2),
  and the file has the shape (1, 2, 2), not (1, 2, 1). Two frames of shape 3 x 1:
  (2, 3, 1, 1) is squeezed to (2, 3), which does not broadcast against (2, 3, 1); the
  subtraction raises ValueError and no file is written.
\<close>

theorem squeeze_changes_shape:
  "result_shape (cm_load one_row_env 0 (0 + notebook_batch_length)) = Some [2, 1, 2] \<and>
   raised (run one_row_env notebook_batch_length empty_state) = None \<and>
   map_option shape (fs (final_state (run one_row_env notebook_batch_length empty_state))
                        (temp_file_name ''out'' 0)) = Some [2, 2, 2] \<and>
   result_shape (cm_load one_column_env 0 (0 + notebook_batch_length)) = Some [1, 2, 1] \<and>
   raised (run one_column_env notebook_batch_length empty_state) = None \<and>
   map_option shape (fs (final_state (run one_column_env notebook_batch_length empty_state))
                        (temp_file_name ''out'' 0)) = Some [1, 2, 2] \<and>
   result_shape (cm_load tall_column_env 0 (0 + notebook_batch_length)) = Some [2, 3, 1] \<and>
   raised (run tall_column_env notebook_batch_length empty_state) = Some ValueError \<and>
   fs (final_state (run tall_column_env notebook_batch_length empty_state)) (temp_file_name ''out'' 0)
     = None"
  by code_simp

subsection \<open>Storage orders\<close>

lemma length_concat_uniform:
  "\<forall>xs\<in>set xss. length xs = m \<Longrightarrow> length (concat xss) = length xss * m"
  by (induction xss) simp_all

lemma nth_concat_uniform:
  "\<forall>xs\<in>set xss. length xs = m \<Longrightarrow> k < length xss * m \<Longrightarrow>
     concat xss ! k = xss ! (k div m) ! (k mod m)"
proof (induction xss arbitrary: k)
  case Nil
  then show ?case by simp
next
  case (Cons x xss)
  have lx: "length x = m" using Cons.prems(1) by simp
  show ?case
  proof (cases "k < m")
    case True
    then show ?thesis using lx by (simp add: nth_append)
  next
    case False
    then have ge: "m \<le> k" by simp
    have m0: "0 < m" using Cons.prems(2) by (cases m) auto
    have k': "k - m < length xss * m" using Cons.prems(2) ge by simp
    have ih: "concat xss ! (k - m) = xss ! ((k - m) div m) ! ((k - m) mod m)"
      using Cons.IH[OF _ k'] Cons.prems(1) by simp
    have d: "k div m = Suc ((k - m) div m)" using ge m0 by (simp add: le_div_geq)
    have r: "k mod m = (k - m) mod m" using ge by (simp add: le_mod_geq)
    show ?thesis using False lx ih d r by (simp add: nth_append)
  qed
qed

lemma length_chunks [simp]: "length (chunks n p d) = n"
  by (simp add: chunks_def)

lemma nth_chunks: "i < n \<Longrightarrow> chunks n p d ! i = take p (drop (i * p) d)"
  by (simp add: chunks_def)

lemma length_chunk:
  "length d = n * p \<Longrightarrow> i < n \<Longrightarrow> length (take p (drop (i * p) d)) = p"
proof -
  assume a: "length d = n * p" "i < n"
  then have "(i + 1) * p \<le> n * p" by (intro mult_le_mono1) simp
  then show ?thesis using a by simp
qed

lemma chunk_nth:
  "length d = n * p \<Longrightarrow> i < n \<Longrightarrow> j < p \<Longrightarrow> take p (drop (i * p) d) ! j = d ! (i * p + j)"
proof -
  assume a: "length d = n * p" "i < n" "j < p"
  then have "i * p \<le> n * p" by (intro mult_le_mono1) simp
  then show ?thesis using a by simp
qed

lemma length_cols_of [simp]: "length (cols_of m xss) = m"
  by (simp add: cols_of_def)

lemma cols_of_row_length: "xs \<in> set (cols_of m xss) \<Longrightarrow> length xs = length xss"
  by (auto simp: cols_of_def)

lemma nth_cols_of: "j < m \<Longrightarrow> i < length xss \<Longrightarrow> cols_of m xss ! j ! i = xss ! i ! j"
  by (simp add: cols_of_def)

lemma length_concat_cols_of: "length (concat (cols_of m xss)) = m * length xss"
  using length_concat_uniform[of "cols_of m xss" "length xss"] by (simp add: cols_of_row_length)

lemma nth_concat_cols_of:
  "k < m * length xss \<Longrightarrow>
     concat (cols_of m xss) ! k = xss ! (k mod length xss) ! (k div length xss)"
proof -
  assume k: "k < m * length xss"
  let ?n = "length xss"
  have n0: "0 < ?n" using k by (cases ?n) auto
  have q: "k div ?n < m" using k n0 by (simp add: less_mult_imp_div_less)
  have r: "k mod ?n < ?n" using n0 by simp
  have "concat (cols_of m xss) ! k = cols_of m xss ! (k div ?n) ! (k mod ?n)"
    by (rule nth_concat_uniform) (use k in \<open>simp_all add: cols_of_row_length\<close>)
  also have "\<dots> = xss ! (k mod ?n) ! (k div ?n)" by (rule nth_cols_of[OF q r])
  finally show ?thesis .
qed

lemma f_order2: "f_order [a, b] d = concat (cols_of b (chunks a b d))"
proof -
  have "map (f_order [b]) (chunks a b d) = chunks a b d" by (simp add: map_idI)
  then show ?thesis by (simp add: f_order.simps(3))
qed

lemma length_f_order2: "length (f_order [a, b] d) = a * b"
  unfolding f_order2 by (simp add: length_concat_cols_of mult.commute)

lemma nth_f_order2:
  assumes "length d = a * b" "k < a * b"
  shows "f_order [a, b] d ! k = d ! ((k mod a) * b + k div a)"
proof -
  have a0: "0 < a" using assms(2) by (cases a) auto
  have q: "k div a < b" using assms(2) a0 by (simp add: less_mult_imp_div_less mult.commute)
  have r: "k mod a < a" using a0 by simp
  have "f_order [a, b] d ! k = chunks a b d ! (k mod a) ! (k div a)"
    unfolding f_order2 using nth_concat_cols_of[of k b "chunks a b d"] assms(2)
    by (simp add: mult.commute)
  also have "\<dots> = take b (drop ((k mod a) * b) d) ! (k div a)" by (simp add: nth_chunks r)
  also have "\<dots> = d ! ((k mod a) * b + k div a)" by (rule chunk_nth[OF assms(1) r q])
  finally show ?thesis .
qed

lemma f_order2_involution:
  assumes "length d = a * b"
  shows "f_order [b, a] (f_order [a, b] d) = d"
proof (rule nth_equalityI)
  show "length (f_order [b, a] (f_order [a, b] d)) = length d"
    using assms by (simp add: length_f_order2 mult.commute)
next
  fix k assume "k < length (f_order [b, a] (f_order [a, b] d))"
  then have k: "k < b * a" by (simp add: length_f_order2)
  then have k2: "k < a * b" by (simp only: mult.commute)
  have l2: "length (f_order [a, b] d) = b * a" by (simp only: length_f_order2 mult.commute)
  have b0: "0 < b" using k by (cases b) auto
  let ?i = "k mod b" and ?q = "k div b"
  have q: "?q < a" using k b0 by (simp add: less_mult_imp_div_less mult.commute)
  have i: "?i < b" using b0 by simp
  have "?i * a + ?q < ?i * a + a" using q by simp
  also have "\<dots> = (?i + 1) * a" by simp
  also have "\<dots> \<le> b * a" using i by (intro mult_le_mono1) simp
  finally have k': "?i * a + ?q < a * b" by (simp add: mult.commute)
  have a0: "0 < a" using q by simp
  have m: "(?i * a + ?q) mod a = ?q" using q by simp
  have dv: "(?i * a + ?q) div a = ?i" using q a0 by simp
  have "f_order [b, a] (f_order [a, b] d) ! k = f_order [a, b] d ! (?i * a + ?q)"
    by (rule nth_f_order2[OF l2 k])
  also have "\<dots> = d ! (((?i * a + ?q) mod a) * b + (?i * a + ?q) div a)"
    by (rule nth_f_order2[OF assms k'])
  also have "\<dots> = d ! (?q * b + ?i)" by (simp only: m dv)
  also have "?q * b + ?i = k" by simp
  finally show "f_order [b, a] (f_order [a, b] d) ! k = d ! k" .
qed

lemma f_order3:
  "f_order [a, b, c] d = concat (cols_of (b * c) (map (f_order [b, c]) (chunks a (b * c) d)))"
  by (simp add: f_order.simps(3))

lemma length_f_order3: "length (f_order [a, b, c] d) = a * (b * c)"
  unfolding f_order3 by (simp add: length_concat_cols_of mult.commute)

lemma index2_less:
  fixes q b c :: nat
  assumes "q < b * c"
  shows "(q mod b) * c + q div b < b * c"
proof -
  have b0: "0 < b" using assms by (cases b) auto
  have "q div b < c" using assms b0 by (simp add: less_mult_imp_div_less mult.commute)
  then have "(q mod b) * c + q div b < (q mod b) * c + c" by simp
  also have "\<dots> = (q mod b + 1) * c" by simp
  also have "\<dots> \<le> b * c" using b0 by (intro mult_le_mono1) (simp add: Suc_leI)
  finally show ?thesis .
qed

lemma nth_f_order3:
  assumes "length d = a * (b * c)" "k < a * (b * c)"
  shows "f_order [a, b, c] d ! k
           = d ! ((k mod a) * (b * c) + (((k div a) mod b) * c + (k div a) div b))"
proof -
  let ?i = "k mod a" and ?q = "k div a"
  have a0: "0 < a" using assms(2) by (cases a) auto
  have q: "?q < b * c" using assms(2) a0 by (simp add: less_mult_imp_div_less mult.commute)
  have i: "?i < a" using a0 by simp
  have lc: "length (take (b * c) (drop (?i * (b * c)) d)) = b * c"
    by (rule length_chunk[OF assms(1) i])
  have "f_order [a, b, c] d ! k = map (f_order [b, c]) (chunks a (b * c) d) ! ?i ! ?q"
    unfolding f_order3
    using nth_concat_cols_of[of k "b * c" "map (f_order [b, c]) (chunks a (b * c) d)"] assms(2)
    by (simp add: mult.commute)
  also have "\<dots> = f_order [b, c] (take (b * c) (drop (?i * (b * c)) d)) ! ?q"
    using i by (simp add: nth_chunks)
  also have "\<dots> = take (b * c) (drop (?i * (b * c)) d) ! ((?q mod b) * c + ?q div b)"
    by (rule nth_f_order2[OF lc q])
  also have "\<dots> = d ! (?i * (b * c) + ((?q mod b) * c + ?q div b))"
    by (rule chunk_nth[OF assms(1) i index2_less[OF q]])
  finally show ?thesis .
qed

lemma f_order3_involution:
  assumes "length d = a * (b * c)"
  shows "f_order [c, b, a] (f_order [a, b, c] d) = d"
proof (rule nth_equalityI)
  show "length (f_order [c, b, a] (f_order [a, b, c] d)) = length d"
    using assms by (simp add: length_f_order3 mult.commute mult.left_commute)
next
  fix k assume "k < length (f_order [c, b, a] (f_order [a, b, c] d))"
  then have k: "k < c * (b * a)" by (simp add: length_f_order3)
  have lx: "length (f_order [a, b, c] d) = c * (b * a)"
    by (simp add: length_f_order3 mult.commute mult.left_commute)
  have c0: "0 < c" using k by (cases c) auto
  define i where "i = k mod c"
  define q where "q = k div c"
  define j where "j = q mod b"
  define l where "l = q div b"
  have q: "q < b * a" unfolding q_def using k c0 by (simp add: less_mult_imp_div_less mult.commute)
  have b0: "0 < b" using q by (cases b) auto
  have i: "i < c" unfolding i_def using c0 by simp
  have j: "j < b" unfolding j_def using b0 by simp
  have l: "l < a" unfolding l_def using q b0 by (simp add: less_mult_imp_div_less mult.commute)
  have a0: "0 < a" using l by simp
  have kq: "k = q * c + i" unfolding q_def i_def by simp
  have qj: "q = l * b + j" unfolding l_def j_def by simp
  define k' where "k' = i * (b * a) + (j * a + l)"
  have k'eq: "k' = (i * b + j) * a + l" unfolding k'_def by (simp add: algebra_simps)
  have "(i * b + j) * a + l < (i * b + j) * a + a" using l by simp
  also have "\<dots> = (i * b + j + 1) * a" by (simp add: algebra_simps)
  also have "i * b + j + 1 \<le> i * b + b" using j by simp
  also have "i * b + b = (i + 1) * b" by simp
  also have "(i + 1) * b \<le> c * b" using i by (intro mult_le_mono1) simp
  finally have k': "k' < a * (b * c)"
    unfolding k'eq by (simp add: algebra_simps mult_le_mono1)
  have m': "k' mod a = l" unfolding k'eq using l by simp
  have d': "k' div a = i * b + j" unfolding k'eq using l a0 by simp
  have mj: "(i * b + j) mod b = j" using j by simp
  have dj: "(i * b + j) div b = i" using j b0 by simp
  have "f_order [c, b, a] (f_order [a, b, c] d) ! k
          = f_order [a, b, c] d ! ((k mod c) * (b * a) + (((k div c) mod b) * a + (k div c) div b))"
    by (rule nth_f_order3[OF lx k])
  also have "(k mod c) * (b * a) + (((k div c) mod b) * a + (k div c) div b) = k'"
    unfolding k'_def i_def j_def l_def q_def by simp
  also have "f_order [a, b, c] d ! k'
          = d ! ((k' mod a) * (b * c) + (((k' div a) mod b) * c + (k' div a) div b))"
    by (rule nth_f_order3[OF assms k'])
  also have "(k' mod a) * (b * c) + (((k' div a) mod b) * c + (k' div a) div b)
          = l * (b * c) + (j * c + i)"
    by (simp only: m' d' mj dj)
  also have "\<dots> = k" unfolding kq qj by (simp add: algebra_simps)
  finally show "f_order [c, b, a] (f_order [a, b, c] d) ! k = d ! k" .
qed

subsection \<open>C3: reading the composite back\<close>

lemma those_map_Some: "those (map Some xs) = Some xs"
  by (induction xs) simp_all

lemma those_Some: "those xs = Some ys \<Longrightarrow> xs = map Some ys"
  by (induction xs arbitrary: ys) (auto split: option.splits)

lemma batch_dims_shape: "batch_dims b = Some (r, c) \<Longrightarrow> \<exists>n. shape b = [n, r, c]"
  by (auto simp: batch_dims_def split: list.splits)

lemma length_concat_batches:
  assumes "\<forall>b\<in>set bs. batch_dims b = Some (r, c) \<and> well_formed b"
  shows "length (concat (map data bs)) = sum_list (map batch_frames bs) * (r * c)"
  using assms
proof (induction bs)
  case Nil
  then show ?case by simp
next
  case (Cons b bs)
  from Cons.prems obtain n where n: "shape b = [n, r, c]" using batch_dims_shape by fastforce
  have "length (data b) = n * (r * c)" using Cons.prems n by (simp add: well_formed_def)
  moreover have "batch_frames b = n" using n by (simp add: batch_frames_def)
  ultimately show ?case using Cons by (simp add: algebra_simps)
qed

text \<open>
  What \<open>materialize\<close> writes: with \<open>D\<close> the values of the concatenated movie, frame after
  frame, a file in row-major order lists pixel after pixel, the pixels of a frame taken
  row by row; a file in column-major order lists frame after frame, the pixels of a frame
  taken column by column.
\<close>

lemma materialize_Inr:
  assumes "materialize store paths order n = Inr mm"
  shows "\<exists>b bs r c. map store paths = map Some (b # bs) \<and>
           (\<forall>x\<in>set (b # bs). batch_dims x = Some (r, c)) \<and>
           sum_list (map batch_frames (b # bs)) = n \<and>
           mm = \<lparr>mm_order = order, mm_dims = (r, c), mm_frames = n,
                 mm_data = (case order of
                    C_order \<Rightarrow> f_order [n, r * c] (concat (map data (b # bs)))
                  | F_order \<Rightarrow> f_order [r, c, n] (f_order [n, r * c] (concat (map data (b # bs)))))\<rparr>"
proof -
  from assms obtain b bs where t: "those (map store paths) = Some (b # bs)"
    by (auto simp: materialize_def split: option.splits list.splits)
  from assms t obtain r c where d: "batch_dims b = Some (r, c)"
    by (auto simp: materialize_def split: option.splits)
  from assms t d have nx: "\<not> list_ex (\<lambda>b'. batch_dims b' \<noteq> Some (r, c)) bs"
    by (auto simp: materialize_def split: if_splits)
  then have all: "\<forall>x\<in>set (b # bs). batch_dims x = Some (r, c)" using d by (auto simp: list_ex_iff)
  from assms t d nx have T: "sum_list (map batch_frames (b # bs)) = n"
    by (auto simp: materialize_def Let_def split: if_splits)
  define D where "D = concat (map data (b # bs))"
  obtain k where k: "shape b = [k, r, c]" using d batch_dims_shape by blast
  have cat: "np_concatenate (b # bs) = \<lparr>shape = [n, r, c], data = D\<rparr>"
    unfolding np_concatenate_def D_def using k T by simp
  have mv: "frame_axis_to_back (np_concatenate (b # bs))
                = \<lparr>shape = [r, c, n], data = f_order [n, r * c] D\<rparr>"
    unfolding cat by (simp add: frame_axis_to_back_def)
  have l2: "length (f_order [r, c, n] (f_order [n, r * c] D)) = n * (r * c)"
    by (simp add: length_f_order3 mult.commute mult.left_commute)
  have "materialize store paths order n =
      Inr \<lparr>mm_order = order, mm_dims = (r, c), mm_frames = n,
           mm_data = (case order of
              C_order \<Rightarrow> f_order [n, r * c] D
            | F_order \<Rightarrow> f_order [r * c, n] (f_order [n, r * c] (f_order [r, c, n] (f_order [n, r * c] D))))\<rparr>"
    unfolding materialize_def t using d nx T mv
    by (cases order) (simp_all add: Let_def np_reshape_def stored_values_def)
  also have "f_order [r * c, n] (f_order [n, r * c] (f_order [r, c, n] (f_order [n, r * c] D)))
               = f_order [r, c, n] (f_order [n, r * c] D)"
    by (rule f_order2_involution[OF l2])
  finally have "mm = \<lparr>mm_order = order, mm_dims = (r, c), mm_frames = n,
           mm_data = (case order of
              C_order \<Rightarrow> f_order [n, r * c] D
            | F_order \<Rightarrow> f_order [r, c, n] (f_order [n, r * c] D))\<rparr>"
    using assms by simp
  then show ?thesis unfolding D_def using those_Some[OF t] all T by blast
qed

lemma read_back_materialized:
  assumes "length D = n * (r * c)"
  shows "read_back order \<lparr>mm_order = order, mm_dims = (r, c), mm_frames = n,
           mm_data = (case order of
              C_order \<Rightarrow> f_order [n, r * c] D
            | F_order \<Rightarrow> f_order [r, c, n] (f_order [n, r * c] D))\<rparr>
         = Inr \<lparr>shape = [n, r, c], data = D\<rparr>"
proof -
  let ?W = "f_order [n, r * c] D"
  have cr: "c * r = r * c" by simp
  have front: "f_order [c * r, n] ?W = D"
    unfolding cr by (rule f_order2_involution[OF assms])
  show ?thesis
  proof (cases order)
    case C_order
    then show ?thesis
      using front by (simp add: read_back_def load_memmap_def np_reshape_def frame_axis_to_front_def)
  next
    case F_order
    have lw: "length ?W = r * (c * n)"
      by (simp add: length_f_order2 mult.commute mult.left_commute)
    have s2: "f_order [r * c, n] (f_order [n, r * c] (f_order [r, c, n] ?W)) = f_order [r, c, n] ?W"
      by (rule f_order2_involution) (simp add: length_f_order3 mult.commute mult.left_commute)
    have s3: "f_order [n, c, r] (f_order [r, c, n] ?W) = ?W"
      by (rule f_order3_involution[OF lw])
    have "f_order [c * r, n]
            (f_order [n, c, r] (f_order [r * c, n] (f_order [n, r * c] (f_order [r, c, n] ?W)))) = D"
      unfolding s2 s3 by (rule front)
    then show ?thesis
      using F_order by (simp add: read_back_def load_memmap_def np_reshape_def frame_axis_to_front_def)
  qed
qed

lemma materialize_concatenate:
  assumes "map store paths = map Some batches" and "\<forall>b\<in>set batches. well_formed b"
    and "materialize store paths order n = Inr mm"
  shows "\<exists>r c D. length D = n * (r * c) \<and>
           np_concatenate batches = \<lparr>shape = [n, r, c], data = D\<rparr> \<and>
           mm = \<lparr>mm_order = order, mm_dims = (r, c), mm_frames = n,
                 mm_data = (case order of
                    C_order \<Rightarrow> f_order [n, r * c] D
                  | F_order \<Rightarrow> f_order [r, c, n] (f_order [n, r * c] D))\<rparr>"
proof -
  from materialize_Inr[OF assms(3)] obtain b bs r c where
    m: "map store paths = map Some (b # bs)" "\<forall>x\<in>set (b # bs). batch_dims x = Some (r, c)"
      "sum_list (map batch_frames (b # bs)) = n"
      "mm = \<lparr>mm_order = order, mm_dims = (r, c), mm_frames = n,
                 mm_data = (case order of
                    C_order \<Rightarrow> f_order [n, r * c] (concat (map data (b # bs)))
                  | F_order \<Rightarrow> f_order [r, c, n] (f_order [n, r * c] (concat (map data (b # bs)))))\<rparr>"
    by blast
  have "map Some batches = map Some (b # bs)" using assms(1) m(1) by (simp only:)
  then have bb: "batches = b # bs" by (simp only: inj_map_eq_map[OF inj_Some])
  let ?D = "concat (map data (b # bs))"
  have "length ?D = sum_list (map batch_frames (b # bs)) * (r * c)"
    by (rule length_concat_batches) (use m(2) assms(2) bb in auto)
  then have len: "length ?D = n * (r * c)" by (simp only: m(3))
  obtain k where k: "shape b = [k, r, c]" using m(2) batch_dims_shape by fastforce
  have cat: "np_concatenate batches = \<lparr>shape = [n, r, c], data = ?D\<rparr>"
    unfolding bb np_concatenate_def using k m(3) by simp
  show ?thesis using len cat m(4) by blast
qed

text \<open>
  C3. Let the composite be materialised, in either storage order, from well-formed batch
  files. Reshaping the mapped array by \<open>dims + (total_frames,)\<close> in the declared storage
  order and moving the frame axis to the front reproduces the concatenation of the batch
  files, frame for frame and value for value; \<open>total_frames\<close> and \<open>dims\<close> are the number
  of frames and the frame shape of that concatenation.
\<close>

theorem composite_round_trip:
  assumes "map store paths = map Some batches" and "\<forall>b\<in>set batches. well_formed b"
    and "materialize store paths order source_frames = Inr mm"
  shows "mm_order mm = order \<and>
         spec_read_back mm = Inr (np_concatenate batches) \<and>
         shape (np_concatenate batches) = [mm_frames mm, fst (mm_dims mm), snd (mm_dims mm)] \<and>
         mm_frames mm = source_frames"
proof -
  from materialize_concatenate[OF assms] obtain r c D where
    len: "length D = source_frames * (r * c)"
    and cat: "np_concatenate batches = \<lparr>shape = [source_frames, r, c], data = D\<rparr>"
    and mm: "mm = \<lparr>mm_order = order, mm_dims = (r, c), mm_frames = source_frames,
                 mm_data = (case order of
                    C_order \<Rightarrow> f_order [source_frames, r * c] D
                  | F_order \<Rightarrow> f_order [r, c, source_frames] (f_order [source_frames, r * c] D))\<rparr>"
    by blast
  have o: "mm_order mm = order" unfolding mm by simp
  have "read_back order mm = Inr \<lparr>shape = [source_frames, r, c], data = D\<rparr>"
    unfolding mm by (rule read_back_materialized[OF len])
  then have rb: "spec_read_back mm = Inr (np_concatenate batches)"
    unfolding spec_read_back_def o cat .
  have sh: "shape (np_concatenate batches) = [mm_frames mm, fst (mm_dims mm), snd (mm_dims mm)]"
    unfolding cat mm by simp
  have fr: "mm_frames mm = source_frames" unfolding mm by simp
  show ?thesis by (intro conjI o rb sh fr)
qed

theorem composite_round_trip_witness:
  "map (fs (final_state (run wide_env 2 empty_state)))
       (saved_files (final_state (run wide_env 2 empty_state)))
     = map Some (stored_batches (final_state (run wide_env 2 empty_state))) \<and>
   list_all well_formed (stored_batches (final_state (run wide_env 2 empty_state))) \<and>
   np_concatenate (stored_batches (final_state (run wide_env 2 empty_state)))
     = \<lparr>shape = [3, 2, 3],
        data = map Val [0, 0, 0, 1, 2, 3, 4, 5, 6, 7, 8, 9, 10, 11, 12, 13, 14, 15]\<rparr> \<and>
   materialize (fs (final_state (run wide_env 2 empty_state)))
       (saved_files (final_state (run wide_env 2 empty_state))) C_order 3
     = Inr \<lparr>mm_order = C_order, mm_dims = (2, 3), mm_frames = 3,
            mm_data = map Val [0, 4, 10, 0, 5, 11, 0, 6, 12, 1, 7, 13, 2, 8, 14, 3, 9, 15]\<rparr> \<and>
   spec_read_back \<lparr>mm_order = C_order, mm_dims = (2, 3), mm_frames = 3,
              mm_data = map Val [0, 4, 10, 0, 5, 11, 0, 6, 12, 1, 7, 13, 2, 8, 14, 3, 9, 15]\<rparr>
     = Inr \<lparr>shape = [3, 2, 3],
            data = map Val [0, 0, 0, 1, 2, 3, 4, 5, 6, 7, 8, 9, 10, 11, 12, 13, 14, 15]\<rparr> \<and>
   materialize (fs (final_state (run wide_env 2 empty_state)))
       (saved_files (final_state (run wide_env 2 empty_state))) F_order 3
     = Inr \<lparr>mm_order = F_order, mm_dims = (2, 3), mm_frames = 3,
            mm_data = map Val [0, 1, 0, 2, 0, 3, 4, 7, 5, 8, 6, 9, 10, 13, 11, 14, 12, 15]\<rparr> \<and>
   spec_read_back \<lparr>mm_order = F_order, mm_dims = (2, 3), mm_frames = 3,
              mm_data = map Val [0, 1, 0, 2, 0, 3, 4, 7, 5, 8, 6, 9, 10, 13, 11, 14, 12, 15]\<rparr>
     = Inr \<lparr>shape = [3, 2, 3],
            data = map Val [0, 0, 0, 1, 2, 3, 4, 5, 6, 7, 8, 9, 10, 11, 12, 13, 14, 15]\<rparr>"
proof -
  let ?s = "final_state (run wide_env 2 empty_state)"
  let ?mmC = "\<lparr>mm_order = C_order, mm_dims = (2, 3), mm_frames = 3,
              mm_data = map Val [0, 4, 10, 0, 5, 11, 0, 6, 12, 1, 7, 13, 2, 8, 14, 3, 9, 15]\<rparr>"
  let ?mmF = "\<lparr>mm_order = F_order, mm_dims = (2, 3), mm_frames = 3,
              mm_data = map Val [0, 1, 0, 2, 0, 3, 4, 7, 5, 8, 6, 9, 10, 13, 11, 14, 12, 15]\<rparr>"
  have h1: "map (fs ?s) (saved_files ?s) = map Some (stored_batches ?s)" by code_simp
  have h2': "list_all well_formed (stored_batches ?s)" by code_simp
  then have h2: "\<forall>b\<in>set (stored_batches ?s). well_formed b" by (simp only: list_all_iff)
  have c: "np_concatenate (stored_batches ?s)
             = \<lparr>shape = [3, 2, 3],
                data = map Val [0, 0, 0, 1, 2, 3, 4, 5, 6, 7, 8, 9, 10, 11, 12, 13, 14, 15]\<rparr>"
    by code_simp
  have h3: "materialize (fs ?s) (saved_files ?s) C_order 3 = Inr ?mmC" by code_simp
  have h4: "materialize (fs ?s) (saved_files ?s) F_order 3 = Inr ?mmF" by code_simp
  have "spec_read_back ?mmC = Inr (np_concatenate (stored_batches ?s))"
    using composite_round_trip[OF h1 h2 h3] by blast
  then have a: "spec_read_back ?mmC = Inr \<lparr>shape = [3, 2, 3],
                data = map Val [0, 0, 0, 1, 2, 3, 4, 5, 6, 7, 8, 9, 10, 11, 12, 13, 14, 15]\<rparr>"
    by (simp only: c)
  have "spec_read_back ?mmF = Inr (np_concatenate (stored_batches ?s))"
    using composite_round_trip[OF h1 h2 h4] by blast
  then have b: "spec_read_back ?mmF = Inr \<lparr>shape = [3, 2, 3],
                data = map Val [0, 0, 0, 1, 2, 3, 4, 5, 6, 7, 8, 9, 10, 11, 12, 13, 14, 15]\<rparr>"
    by (simp only: c)
  show ?thesis by (intro conjI h1 h2' c h3 a h4 b)
qed

lemma cell_20_Inr:
  "cell_20 T s = Inr s' \<Longrightarrow>
     \<exists>mm v. materialize (fs s) (saved_files s) C_order T = Inr mm \<and> mmap_view mm = Inr v \<and>
            s' = s\<lparr>mmap_file := Some mm, images_mmap := Some v\<rparr>"
  by (auto simp: cell_20_def Let_def split: sum.splits)

lemma run_files_well_formed:
  assumes "shape (source E) = [T, R, C]" "R \<noteq> 1" "C \<noteq> 1" "well_formed (source E)"
    and "\<forall>x y. predict E x = Some y \<longrightarrow> well_formed y"
    and "run E bl s0 = Inr s" "p \<in> set (saved_files s)"
  shows "\<exists>m. fs s p = Some m \<and> well_formed m"
proof -
  have loop: "for_each (batch_step E bl) (py_range 0 T bl) (s0\<lparr>saved_files := []\<rparr>) = Inr s"
    using run_Inr[OF assms(1,6)] by simp
  from assms(7) loop_Inr[OF loop] obtain i where
    i: "i \<in> set (py_range 0 T bl)" "p = temp_file_name (fld_name E) i" by auto
  from loop_Inr[OF loop] i(1) obtain m where m: "filtered_batch E bl i = Inr m" by blast
  then obtain images out diff where
    h: "cm_load E i (i + bl) = Inr images" "model_predict E (np_expand_dims_last images) = Inr out"
       "np_subtract images (np_squeeze out) = Inr diff" "m = np_maximum0 diff"
    unfolding filtered_batch_Inr by blast
  let ?n = "min (i + bl) T - i"
  have si: "shape images = [?n, R, C]" by (rule cm_load_shape[OF assms(1) h(1)])
  have so: "shape out = [?n, R, C, 1]"
    using model_predict_shape[OF h(2)] si by (simp add: np_expand_dims_last_def)
  have li: "length (data images) = ?n * (R * C)" by (rule cm_load_well_formed[OF assms(1,4) h(1)])
  have wo: "well_formed out" using h(2) assms(5)
    by (auto simp: model_predict_def split: option.splits if_splits)
  then have lo: "length (data out) = ?n * (R * C)" using so by (simp add: well_formed_def)
  have "data diff = map2 px_minus (data images) (data out)"
    by (rule np_subtract_elementwise[OF si so assms(2,3) li wo h(3)])
  then have "length (data m) = ?n * (R * C)" using h(4) li lo by (simp add: np_maximum0_def)
  moreover have "shape m = [?n, R, C]" by (rule filtered_batch_shape_same[OF assms(1) m assms(2,3)])
  ultimately have "well_formed m" by (simp add: well_formed_def)
  then show ?thesis using loop_fs_written[OF loop i(1) m] i(2) by simp
qed

lemma stored_batches_present:
  assumes "\<forall>p\<in>set (saved_files s). \<exists>m. fs s p = Some m"
  shows "map (fs s) (saved_files s) = map Some (stored_batches s)"
  unfolding stored_batches_def using assms by (auto simp: comp_def)

lemma pipeline_Inr:
  "pipeline E bl s0 = Inr s' \<Longrightarrow>
     \<exists>s dims T. run E bl s0 = Inr s \<and> get_file_size E = Inr (dims, T) \<and> cell_20 T s = Inr s'"
  by (auto simp: pipeline_def split: sum.splits)

text \<open>
  For the notebook itself: when the frames have both spatial dimensions different from 1
  and the source and the model outputs are well-formed arrays, the composite of a
  notebook that ran through, read back as above, is the concatenation of the batch files
  of the run.
\<close>

lemma pipeline_composite_round_trip:
  assumes "shape (source E) = [T, R, C]" "R \<noteq> 1" "C \<noteq> 1" "well_formed (source E)"
    and "\<forall>x y. predict E x = Some y \<longrightarrow> well_formed y"
    and "pipeline E bl s0 = Inr s'"
  shows "\<exists>mm. mmap_file s' = Some mm \<and> mm_order mm = C_order \<and> mm_frames mm = T \<and>
           spec_read_back mm = Inr (np_concatenate (stored_batches s'))"
proof -
  from pipeline_Inr[OF assms(6)] obtain s dims T' where
    s: "run E bl s0 = Inr s" "get_file_size E = Inr (dims, T')" "cell_20 T' s = Inr s'" by blast
  have T': "T' = T" using s(2) assms(1) by (simp add: get_file_size_def)
  from cell_20_Inr[OF s(3)] obtain mm v where
    c: "materialize (fs s) (saved_files s) C_order T = Inr mm"
       "s' = s\<lparr>mmap_file := Some mm, images_mmap := Some v\<rparr>" unfolding T' by blast
  have wf: "\<forall>p\<in>set (saved_files s). \<exists>m. fs s p = Some m \<and> well_formed m"
    using run_files_well_formed[OF assms(1-5) s(1)] by blast
  then have h1: "map (fs s) (saved_files s) = map Some (stored_batches s)"
    by (intro stored_batches_present) blast
  have h2: "\<forall>b\<in>set (stored_batches s). well_formed b"
    unfolding stored_batches_def using wf by auto
  from materialize_concatenate[OF h1 h2 c(1)] obtain r c' D where
    len: "length D = T * (r * c')"
    and cat: "np_concatenate (stored_batches s) = \<lparr>shape = [T, r, c'], data = D\<rparr>"
    and mm: "mm = \<lparr>mm_order = C_order, mm_dims = (r, c'), mm_frames = T,
                 mm_data = (case C_order of
                    C_order \<Rightarrow> f_order [T, r * c'] D
                  | F_order \<Rightarrow> f_order [r, c', T] (f_order [T, r * c'] D))\<rparr>"
    by blast
  have o: "mm_order mm = C_order" and fr: "mm_frames mm = T" unfolding mm by simp_all
  have "read_back C_order mm = Inr (np_concatenate (stored_batches s))"
    unfolding mm cat by (rule read_back_materialized[OF len])
  then have rb: "spec_read_back mm = Inr (np_concatenate (stored_batches s))"
    unfolding spec_read_back_def o .
  have "stored_batches s' = stored_batches s" unfolding c(2) by (simp add: stored_batches_def)
  then show ?thesis using o fr rb unfolding c(2) by simp
qed

text \<open>
  The reader of line 345 reshapes the transposed array in column-major order, whatever
  storage order line 343 declares. On the row-major composite written above, it fills
  every frame column by column with the values that the batch files hold row by row: in
  the example, the frame \<open>[[4, 5, 6], [7, 8, 9]]\<close> of the batch files is the frame
  \<open>[[4, 6, 8], [5, 7, 9]]\<close> of \<open>images_mmap\<close>.
\<close>

lemma images_mmap_of_example:
  "raised (pipeline wide_env 2 empty_state) = None \<and>
   map_option mm_order (mmap_file (final_state (pipeline wide_env 2 empty_state))) = Some C_order \<and>
   np_concatenate (stored_batches (final_state (pipeline wide_env 2 empty_state)))
     = \<lparr>shape = [3, 2, 3],
        data = map Val [0, 0, 0, 1, 2, 3, 4, 5, 6, 7, 8, 9, 10, 11, 12, 13, 14, 15]\<rparr> \<and>
   images_mmap (final_state (pipeline wide_env 2 empty_state))
     = Some \<lparr>shape = [3, 2, 3],
             data = map Val [0, 0, 2, 0, 1, 3, 4, 6, 8, 5, 7, 9, 10, 12, 14, 11, 13, 15]\<rparr>"
  by code_simp

subsection \<open>C4: the size of the final batch\<close>

lemma materialize_frames:
  assumes "materialize store paths order n = Inr mm"
  shows "mm_frames mm = (\<Sum>p\<leftarrow>paths. frame_count (store p))"
proof -
  from materialize_Inr[OF assms] obtain b bs where
    m: "map store paths = map Some (b # bs)" "sum_list (map batch_frames (b # bs)) = n"
       "mm_frames mm = n"
    by fastforce
  have "(\<Sum>p\<leftarrow>paths. frame_count (store p)) = sum_list (map frame_count (map store paths))"
    by (simp add: comp_def)
  also have "\<dots> = sum_list (map batch_frames (b # bs))"
    unfolding m(1) by (simp add: frame_count_def comp_def)
  finally show ?thesis using m(2,3) by simp
qed

lemma materialize_counts:
  assumes "\<forall>p\<in>set paths. \<exists>m. store p = Some m"
    and "(\<Sum>p\<leftarrow>paths. frame_count (store p)) = n"
  shows "materialize store paths order n \<noteq> Inl ConcatenationError"
proof -
  define ms where "ms = map (\<lambda>p. the (store p)) paths"
  have eq: "map store paths = map Some ms"
    unfolding ms_def using assms(1) by (auto simp: comp_def)
  then have t: "those (map store paths) = Some ms" by (simp add: those_map_Some)
  have "(\<Sum>p\<leftarrow>paths. frame_count (store p)) = sum_list (map frame_count (map store paths))"
    by (simp add: comp_def)
  also have "\<dots> = sum_list (map batch_frames ms)"
    unfolding eq by (simp add: frame_count_def comp_def)
  finally have n: "sum_list (map batch_frames ms) = n" using assms(2) by simp
  show ?thesis
  proof (cases ms)
    case Nil
    then show ?thesis unfolding materialize_def t by simp
  next
    case (Cons b bs)
    show ?thesis
      unfolding materialize_def t Cons using n[unfolded Cons]
      by (auto simp: Let_def np_reshape_def split: option.splits sum.splits if_splits)
  qed
qed

lemma cell_20_counts:
  assumes "\<forall>p\<in>set (saved_files s). \<exists>m. fs s p = Some m"
    and "(\<Sum>p\<leftarrow>saved_files s. frame_count (fs s p)) = T"
  shows "raised (cell_20 T s) \<noteq> Some ConcatenationError"
proof -
  have m: "materialize (fs s) (saved_files s) C_order T \<noteq> Inl ConcatenationError"
    by (rule materialize_counts[OF assms])
  have v: "mmap_view mm \<noteq> Inl ConcatenationError" for mm
    by (simp add: mmap_view_def load_memmap_def np_reshape_def Let_def split: prod.splits)
  show ?thesis
    using m v by (auto simp: cell_20_def raised_def Let_def split: sum.splits)
qed

lemma cell_20_succeeds:
  assumes "saved_files s \<noteq> []"
    and "\<forall>p\<in>set (saved_files s). \<exists>m. fs s p = Some m \<and> batch_dims m = Some (r, c)"
    and "(\<Sum>p\<leftarrow>saved_files s. frame_count (fs s p)) = T"
  shows "\<exists>s'. cell_20 T s = Inr s'"
proof -
  define ms where "ms = map (\<lambda>p. the (fs s p)) (saved_files s)"
  have eq: "map (fs s) (saved_files s) = map Some ms"
    unfolding ms_def using assms(2) by (auto simp: comp_def)
  then have t: "those (map (fs s) (saved_files s)) = Some ms" by (simp add: those_map_Some)
  obtain b bs where ms: "ms = b # bs" using assms(1) unfolding ms_def by (cases "saved_files s") auto
  have all: "\<forall>x\<in>set ms. batch_dims x = Some (r, c)" unfolding ms_def using assms(2) by auto
  then have d: "batch_dims b = Some (r, c)" and nx: "\<not> list_ex (\<lambda>b'. batch_dims b' \<noteq> Some (r, c)) bs"
    unfolding ms by (auto simp: list_ex_iff)
  have "(\<Sum>p\<leftarrow>saved_files s. frame_count (fs s p)) = sum_list (map frame_count (map (fs s) (saved_files s)))"
    by (simp add: comp_def)
  also have "\<dots> = sum_list (map batch_frames (b # bs))"
    unfolding eq ms by (simp add: frame_count_def comp_def)
  finally have n: "sum_list (map batch_frames (b # bs)) = T" using assms(3) by simp
  obtain k where k: "shape b = [k, r, c]" using d batch_dims_shape by blast
  have sh: "shape (frame_axis_to_back (np_concatenate (b # bs))) = [r, c, T]"
    using k n by (simp add: frame_axis_to_back_def np_concatenate_def)
  obtain Yr where "np_reshape (frame_axis_to_back (np_concatenate (b # bs))) [r * c, T] C_order = Inr Yr"
    using sh by (simp add: np_reshape_def)
  then obtain mm where mm: "materialize (fs s) (saved_files s) C_order T = Inr mm"
    "mm_dims mm = (r, c)" "mm_order mm = C_order"
    unfolding materialize_def t ms using d nx n by (simp add: Let_def)
  have "\<exists>v. mmap_view mm = Inr v"
    unfolding mmap_view_def load_memmap_def using mm(2,3)
    by (simp add: np_reshape_def np_T_def Let_def)
  then show ?thesis unfolding cell_20_def using mm(1) by (auto simp: Let_def)
qed

lemma py_range_nonempty: "0 < step \<Longrightarrow> i < T \<Longrightarrow> py_range i T step \<noteq> []"
  by (simp add: py_range_rec)

lemma py_range_last:
  "0 < step \<Longrightarrow> i < T \<Longrightarrow>
     last (py_range i T step) < T \<and> T \<le> last (py_range i T step) + step"
proof (induction i T step rule: py_range.induct)
  case (1 i T step)
  have e: "py_range i T step = i # py_range (i + step) T step" using 1(2,3) by (simp add: py_range_rec)
  show ?case
  proof (cases "i + step < T")
    case True
    then have "py_range (i + step) T step \<noteq> []" using 1(2) by (simp add: py_range_nonempty)
    then have "last (py_range i T step) = last (py_range (i + step) T step)" using e by simp
    then show ?thesis using 1 True by simp
  next
    case False
    then have "py_range (i + step) T step = []" by (simp add: py_range_nil)
    then show ?thesis using e False 1(3) by simp
  qed
qed

lemma py_range_butlast:
  "0 < step \<Longrightarrow> x \<in> set (butlast (py_range i T step)) \<Longrightarrow> x + step < T"
proof (induction i T step rule: py_range.induct)
  case (1 i T step)
  show ?case
  proof (cases "T \<le> i")
    case True
    then show ?thesis using 1(3) by (simp add: py_range_nil)
  next
    case False
    then have e: "py_range i T step = i # py_range (i + step) T step" using 1(2) by (simp add: py_range_rec)
    show ?thesis
    proof (cases "i + step < T")
      case True
      then show ?thesis using 1 e False by (auto split: if_splits)
    next
      case False
      then have "py_range (i + step) T step = []" by (simp add: py_range_nil)
      then show ?thesis using 1(3) e by simp
    qed
  qed
qed

lemma last_batch_size:
  assumes "0 < step" "x \<in> set (py_range 0 T step)" "T \<le> x + step"
  shows "T - x = (if T mod step = 0 then step else T mod step)"
proof -
  from assms(1,2) obtain q where q: "x = q * step" "x < T" by (auto simp: set_py_range)
  have m: "(T - x) mod step = T mod step"
    using q by (metis add.commute le_add_diff_inverse less_imp_le_nat mod_mult_self3)
  have le: "T - x \<le> step" using assms(3) by simp
  have pos: "0 < T - x" using q by simp
  show ?thesis
  proof (cases "T - x = step")
    case True
    then show ?thesis using m by (metis mod_self)
  next
    case False
    then have "T - x < step" using le by simp
    then have "(T - x) mod step = T - x" by simp
    then show ?thesis using m pos by simp
  qed
qed

lemma run_file_frames:
  assumes "shape (source E) = [T, R, C]" "run E bl s0 = Inr s" "i \<in> set (py_range 0 T bl)"
  shows "frame_count (fs s (temp_file_name (fld_name E) i)) = min (i + bl) T - i"
proof -
  have loop: "for_each (batch_step E bl) (py_range 0 T bl) (s0\<lparr>saved_files := []\<rparr>) = Inr s"
    using run_Inr[OF assms(1,2)] by simp
  from loop_Inr[OF loop] assms(3) obtain m where m: "filtered_batch E bl i = Inr m" by blast
  show ?thesis using loop_fs_written[OF loop assms(3) m] frame_count_written[OF assms(1) m] by simp
qed

lemma run_saved_files:
  assumes "shape (source E) = [T, R, C]" "run E bl s0 = Inr s"
  shows "saved_files s = map (temp_file_name (fld_name E)) (py_range 0 T bl)"
  using loop_Inr[of E bl "py_range 0 T bl" "s0\<lparr>saved_files := []\<rparr>" s] run_Inr[OF assms] by simp

lemma run_total_frames:
  assumes "shape (source E) = [T, R, C]" "run E bl s0 = Inr s"
  shows "(\<Sum>p\<leftarrow>saved_files s. frame_count (fs s p)) = T"
proof -
  have pos: "0 < bl" using run_Inr[OF assms] by simp
  have "(\<Sum>p\<leftarrow>saved_files s. frame_count (fs s p)) = (\<Sum>i\<leftarrow>py_range 0 T bl. min (i + bl) T - i)"
    unfolding run_saved_files[OF assms] using run_file_frames[OF assms]
    by (simp add: comp_def cong: map_cong)
  also have "\<dots> = T - 0" by (rule sum_batch_sizes[OF pos])
  finally show ?thesis by simp
qed

lemma run_files_present:
  assumes "shape (source E) = [T, R, C]" "run E bl s0 = Inr s" "p \<in> set (saved_files s)"
  shows "\<exists>m. fs s p = Some m"
proof -
  have loop: "for_each (batch_step E bl) (py_range 0 T bl) (s0\<lparr>saved_files := []\<rparr>) = Inr s"
    using run_Inr[OF assms(1,2)] by simp
  from assms(3) loop_Inr[OF loop] obtain i where
    i: "i \<in> set (py_range 0 T bl)" "p = temp_file_name (fld_name E) i" by auto
  from loop_Inr[OF loop] i(1) obtain m where m: "filtered_batch E bl i = Inr m" by blast
  show ?thesis using loop_fs_written[OF loop i(1) m] i(2) by simp
qed

lemma range_1000_256: "py_range 0 1000 256 = [0, 256, 512, 768]"
  by code_simp

lemma run_succeeds:
  assumes "shape (source E) = [T, R, C]" "0 < bl"
    and "\<forall>j\<in>set (py_range 0 T bl). (\<exists>m. filtered_batch E bl j = Inr m) \<and>
            \<not> write_fault E (temp_file_name (fld_name E) j)"
  shows "raised (run E bl s0) = None"
proof -
  have "run E bl s0 = for_each (batch_step E bl) (py_range 0 T bl) (s0\<lparr>saved_files := []\<rparr>)"
    using assms(1,2) by (simp add: run_def get_file_size_def batch_loop_def)
  moreover obtain s where "for_each (batch_step E bl) (py_range 0 T bl) (s0\<lparr>saved_files := []\<rparr>) = Inr s"
    using loop_succeeds[OF assms(3)] by blast
  ultimately show ?thesis by (simp add: raised_def)
qed

lemma run_files_dims:
  assumes "shape (source E) = [T, R, C]" "R \<noteq> 1" "C \<noteq> 1" "run E bl s0 = Inr s"
    "p \<in> set (saved_files s)"
  shows "\<exists>m. fs s p = Some m \<and> batch_dims m = Some (R, C)"
proof -
  have loop: "for_each (batch_step E bl) (py_range 0 T bl) (s0\<lparr>saved_files := []\<rparr>) = Inr s"
    using run_Inr[OF assms(1,4)] by simp
  from assms(5) loop_Inr[OF loop] obtain i where
    i: "i \<in> set (py_range 0 T bl)" "p = temp_file_name (fld_name E) i" by auto
  from loop_Inr[OF loop] i(1) obtain m where m: "filtered_batch E bl i = Inr m" by blast
  have "shape m = [min (i + bl) T - i, R, C]"
    by (rule filtered_batch_shape_same[OF assms(1) m assms(2,3)])
  then have "batch_dims m = Some (R, C)" by (simp add: batch_dims_def)
  then show ?thesis using loop_fs_written[OF loop i(1) m] i(2) by simp
qed

lemma long_env_batches:
  "\<forall>j\<in>set (py_range 0 1000 256). (\<exists>m. filtered_batch long_env 256 j = Inr m) \<and>
       \<not> write_fault long_env (temp_file_name (fld_name long_env) j)"
  unfolding range_1000_256
  by (simp add: filtered_batch_def cm_load_def long_env_def scenario_env_def model_predict_def
      np_expand_dims_last_def np_squeeze_def np_subtract_def broadcast_shapes_def
      del: upt_rec_numeral)

text \<open>
  C4. For every T and batch length of at least 1, a completed run has written a last
  batch of \<open>T mod batch_length\<close> frames when T is not a multiple of the batch length, and of
  \<open>batch_length\<close> frames otherwise; every batch before it has \<open>batch_length\<close> frames; a
  composite made from the files has \<open>total_frames = T\<close>, and making it never fails on the
  frame count. For T = 1000 and batch length 256 the batches start at 0, 256, 512, 768
  and have 256, 256, 256, 232 frames: 4 files.
\<close>

theorem final_batch_size:
  assumes "shape (source E) = [T, R, C]" and "1 \<le> T" and "1 \<le> batch_length"
    and "run E batch_length s0 = Inr s"
  shows "saved_files s \<noteq> [] \<and>
     frame_count (fs s (last (saved_files s)))
       = (if T mod batch_length = 0 then batch_length else T mod batch_length) \<and>
     (\<forall>p\<in>set (butlast (saved_files s)). frame_count (fs s p) = batch_length) \<and>
     (\<forall>s'. cell_20 T s = Inr s' \<longrightarrow> map_option mm_frames (mmap_file s') = Some T) \<and>
     raised (cell_20 T s) \<noteq> Some ConcatenationError \<and>
     (T = 1000 \<and> batch_length = 256 \<longrightarrow>
        saved_files s = map (temp_file_name (fld_name E)) [0, 256, 512, 768] \<and>
        map (\<lambda>p. frame_count (fs s p)) (saved_files s) = [256, 256, 256, 232])"
proof -
  let ?xs = "py_range 0 T batch_length"
  let ?path = "temp_file_name (fld_name E)"
  have pos: "0 < batch_length" and T0: "0 < T" using assms(2,3) by simp_all
  have files: "saved_files s = map ?path ?xs" by (rule run_saved_files[OF assms(1,4)])
  have fc: "frame_count (fs s (?path i)) = min (i + batch_length) T - i" if "i \<in> set ?xs" for i
    by (rule run_file_frames[OF assms(1,4) that])
  have ne: "?xs \<noteq> []" by (rule py_range_nonempty[OF pos T0])
  then have a: "saved_files s \<noteq> []" using files by simp
  have lastx: "last ?xs \<in> set ?xs" using ne by simp
  have lb: "last ?xs < T \<and> T \<le> last ?xs + batch_length" by (rule py_range_last[OF pos T0])
  have "frame_count (fs s (last (saved_files s))) = min (last ?xs + batch_length) T - last ?xs"
    unfolding files using ne fc[OF lastx] by (simp add: last_map)
  also have "\<dots> = T - last ?xs" using lb by simp
  also have "\<dots> = (if T mod batch_length = 0 then batch_length else T mod batch_length)"
    using last_batch_size[OF pos lastx] lb by simp
  finally have b: "frame_count (fs s (last (saved_files s)))
       = (if T mod batch_length = 0 then batch_length else T mod batch_length)" .
  have c: "\<forall>p\<in>set (butlast (saved_files s)). frame_count (fs s p) = batch_length"
  proof
    fix p assume "p \<in> set (butlast (saved_files s))"
    then obtain x where x: "x \<in> set (butlast ?xs)" "p = ?path x"
      unfolding files by (auto simp: map_butlast[symmetric])
    have "x + batch_length < T" by (rule py_range_butlast[OF pos x(1)])
    then show "frame_count (fs s p) = batch_length"
      using fc[OF in_set_butlastD[OF x(1)]] x(2) by simp
  qed
  have total: "(\<Sum>p\<leftarrow>saved_files s. frame_count (fs s p)) = T"
  proof -
    have "(\<Sum>p\<leftarrow>saved_files s. frame_count (fs s p)) = (\<Sum>i\<leftarrow>?xs. min (i + batch_length) T - i)"
      unfolding files using fc by (simp add: comp_def cong: map_cong)
    also have "\<dots> = T - 0" by (rule sum_batch_sizes[OF pos])
    finally show ?thesis by simp
  qed
  have d: "\<forall>s'. cell_20 T s = Inr s' \<longrightarrow> map_option mm_frames (mmap_file s') = Some T"
  proof (intro allI impI)
    fix s' assume "cell_20 T s = Inr s'"
    from cell_20_Inr[OF this] obtain mm v where
      mm: "materialize (fs s) (saved_files s) C_order T = Inr mm"
          "s' = s\<lparr>mmap_file := Some mm, images_mmap := Some v\<rparr>" by blast
    show "map_option mm_frames (mmap_file s') = Some T"
      using materialize_frames[OF mm(1)] total mm(2) by simp
  qed
  have e: "saved_files s = map ?path [0, 256, 512, 768] \<and>
           map (\<lambda>p. frame_count (fs s p)) (saved_files s) = [256, 256, 256, 232]"
    if "T = 1000" "batch_length = 256"
  proof -
    have r: "?xs = [0, 256, 512, 768]" using that range_1000_256 by simp
    have f: "saved_files s = map ?path [0, 256, 512, 768]" using files r by simp
    have "map (\<lambda>p. frame_count (fs s p)) (saved_files s) = map (\<lambda>i. min (i + batch_length) T - i) ?xs"
      unfolding files using fc by (simp add: comp_def cong: map_cong)
    also have "\<dots> = [256, 256, 256, 232]" unfolding r using that by simp
    finally show ?thesis using f by simp
  qed
  have present: "\<forall>p\<in>set (saved_files s). \<exists>m. fs s p = Some m"
    using run_files_present[OF assms(1,4)] by blast
  have nc: "raised (cell_20 T s) \<noteq> Some ConcatenationError"
    by (rule cell_20_counts[OF present total])
  show ?thesis using a b c d nc e by blast
qed

theorem final_batch_size_witness:
  "shape (source long_env) = [1000, 2, 2] \<and> (1::nat) \<le> 1000 \<and> (1::nat) \<le> 256 \<and>
   run long_env 256 empty_state = Inr (final_state (run long_env 256 empty_state)) \<and>
   saved_files (final_state (run long_env 256 empty_state))
     = [''out/pfc_back_removed_00000.h5'', ''out/pfc_back_removed_00256.h5'',
        ''out/pfc_back_removed_00512.h5'', ''out/pfc_back_removed_00768.h5''] \<and>
   map (\<lambda>p. frame_count (fs (final_state (run long_env 256 empty_state)) p))
       (saved_files (final_state (run long_env 256 empty_state))) = [256, 256, 256, 232] \<and>
   frame_count (fs (final_state (run long_env 256 empty_state))
                   (last (saved_files (final_state (run long_env 256 empty_state))))) = 232 \<and>
   cell_20 1000 (final_state (run long_env 256 empty_state))
     = Inr (final_state (cell_20 1000 (final_state (run long_env 256 empty_state)))) \<and>
   map_option mm_frames
     (mmap_file (final_state (cell_20 1000 (final_state (run long_env 256 empty_state))))) = Some 1000"
proof -
  let ?s = "final_state (run long_env 256 empty_state)"
  have h1: "shape (source long_env) = [1000, 2, 2]" by (simp add: long_env_def scenario_env_def)
  have h2: "(1::nat) \<le> 1000" and h3: "(1::nat) \<le> 256" by simp_all
  have "raised (run long_env 256 empty_state) = None"
    by (rule run_succeeds[OF h1 _ long_env_batches]) simp
  then have h4: "run long_env 256 empty_state = Inr ?s" by (rule Inr_final_state)
  have fld: "fld_name long_env = ''out''" by (simp add: long_env_def scenario_env_def)
  note t = final_batch_size[OF h1 h2 h3 h4]
  have a: "saved_files ?s = [''out/pfc_back_removed_00000.h5'', ''out/pfc_back_removed_00256.h5'',
        ''out/pfc_back_removed_00512.h5'', ''out/pfc_back_removed_00768.h5'']"
    using t unfolding fld by (simp add: scenario_names)
  have b: "map (\<lambda>p. frame_count (fs ?s p)) (saved_files ?s) = [256, 256, 256, 232]"
    using t by blast
  have "frame_count (fs ?s (last (saved_files ?s))) = (if 1000 mod 256 = (0::nat) then 256 else 1000 mod 256)"
    using t by blast
  then have c: "frame_count (fs ?s (last (saved_files ?s))) = 232" by simp
  have ne: "saved_files ?s \<noteq> []" using t by blast
  have "\<forall>p\<in>set (saved_files ?s). \<exists>m. fs ?s p = Some m \<and> batch_dims m = Some (2, 2)"
    using run_files_dims[OF h1 _ _ h4] by simp
  from cell_20_succeeds[OF ne this run_total_frames[OF h1 h4]]
  obtain s' where s': "cell_20 1000 ?s = Inr s'" by blast
  then have d: "cell_20 1000 ?s = Inr (final_state (cell_20 1000 ?s))" by (simp add: final_state_def)
  have "map_option mm_frames (mmap_file s') = Some 1000" using t s' by blast
  then have e: "map_option mm_frames (mmap_file (final_state (cell_20 1000 ?s))) = Some 1000"
    using s' by (simp add: final_state_def)
  show ?thesis by (intro conjI h1 h2 h3 h4 a b c d e)
qed

subsection \<open>Runs that complete\<close>

text \<open>
  The properties above are stated for runs that complete. A run does complete when nothing
  fails: for frames with both spatial dimensions different from 1, a storage without read
  or write faults and a model that returns an output of the shape of its input, the loop
  ends without an exception, and for \<open>T > 0\<close> so does the composite.
\<close>

lemma filtered_batch_succeeds:
  assumes "shape (source E) = [T, R, C]" "R \<noteq> 1" "C \<noteq> 1"
    and "\<not> read_fault E i" and "\<forall>x. \<exists>y. predict E x = Some y \<and> shape y = shape x"
  shows "\<exists>m. filtered_batch E bl i = Inr m"
proof -
  let ?n = "min (i + bl) T - i"
  obtain images where l: "cm_load E i (i + bl) = Inr images" "shape images = [?n, R, C]"
    using assms(1,4) by (simp add: cm_load_def)
  from assms(5) obtain out where p: "predict E (np_expand_dims_last images) = Some out"
    "shape out = shape (np_expand_dims_last images)" by blast
  then have mp: "model_predict E (np_expand_dims_last images) = Inr out" by (simp add: model_predict_def)
  have so: "shape (np_squeeze out) = filter (\<lambda>d. d \<noteq> 1) [?n, R, C, 1]"
    using p(2) l(2) by (simp add: np_squeeze_def np_expand_dims_last_def)
  have "broadcast_shapes (shape images) (shape (np_squeeze out)) = Some [?n, R, C]"
    unfolding so l(2) by (rule broadcast_squeezed_same[OF assms(2,3)])
  then obtain diff where "np_subtract images (np_squeeze out) = Inr diff" by (simp add: np_subtract_def)
  then show ?thesis using l(1) mp by (simp add: filtered_batch_def)
qed

lemma run_completes:
  assumes "shape (source E) = [T, R, C]" "R \<noteq> 1" "C \<noteq> 1" "0 < bl"
    and "\<forall>i. \<not> read_fault E i" and "\<forall>x. \<exists>y. predict E x = Some y \<and> shape y = shape x"
    and "\<forall>p. \<not> write_fault E p"
  shows "raised (run E bl s0) = None"
proof (rule run_succeeds[OF assms(1,4)])
  show "\<forall>j\<in>set (py_range 0 T bl). (\<exists>m. filtered_batch E bl j = Inr m) \<and>
          \<not> write_fault E (temp_file_name (fld_name E) j)"
    using filtered_batch_succeeds[OF assms(1-3) _ assms(6)] assms(5,7) by blast
qed

lemma pipeline_completes:
  assumes "shape (source E) = [T, R, C]" "R \<noteq> 1" "C \<noteq> 1" "0 < bl" "0 < T"
    and "\<forall>i. \<not> read_fault E i" and "\<forall>x. \<exists>y. predict E x = Some y \<and> shape y = shape x"
    and "\<forall>p. \<not> write_fault E p"
  shows "raised (pipeline E bl s0) = None"
proof -
  have "raised (run E bl s0) = None" by (rule run_completes[OF assms(1-4,6-8)])
  then obtain s where s: "run E bl s0 = Inr s" using Inr_final_state by blast
  have "saved_files s = map (temp_file_name (fld_name E)) (py_range 0 T bl)"
    by (rule run_saved_files[OF assms(1) s])
  then have ne: "saved_files s \<noteq> []" using py_range_nonempty[OF assms(4,5)] by simp
  have "\<forall>p\<in>set (saved_files s). \<exists>m. fs s p = Some m \<and> batch_dims m = Some (R, C)"
    using run_files_dims[OF assms(1-3) s] by blast
  from cell_20_succeeds[OF ne this run_total_frames[OF assms(1) s]]
  obtain s' where "cell_20 T s = Inr s'" by blast
  then show ?thesis using s assms(1) by (simp add: pipeline_def raised_def get_file_size_def)
qed

end
